theory Spec2Isabelle
  imports Complex_Main
begin

unbundle bit_operations_syntax

section \<open>slcgen: outlines for the Symbols for Legacy Computing\<close>

text \<open>
  A shallow embedding of \<^verbatim>\<open>src/slcgen.py\<close>: the parameter record
  \<^verbatim>\<open>SLCParameters\<close>, the outline builders of \<^verbatim>\<open>GlyphProxy\<close> and the glyph
  store of \<^verbatim>\<open>FontProxy\<close>.

  The program runs under Python 3 (\<^verbatim>\<open>diagfill\<close> passes \<^verbatim>\<open>round(...)\<close> to
  \<^verbatim>\<open>range\<close>, which needs an integer): \<^verbatim>\<open>/\<close> is true division, \<^verbatim>\<open>//\<close> is floor
  division and \<^verbatim>\<open>round\<close> rounds a half to the even neighbour and returns an integer.
  Python's floats are read as real numbers (no rounding error, no overflow); Python's
  integers are \<^typ>\<open>int\<close>.
\<close>

subsection \<open>Numbers and errors\<close>

datatype error = ZeroDivisionError | IndexError

text \<open>\<^verbatim>\<open>round(x)\<close> with one argument: the nearest integer, a half goes to the even one.\<close>

definition py_round :: "real \<Rightarrow> int" where
  "py_round x =
     (let f = \<lfloor>x\<rfloor>; d = x - of_int f
      in if d < 1 / 2 then f else if 1 / 2 < d then f + 1 else if even f then f else f + 1)"

text \<open>\<^verbatim>\<open>a / b\<close> raises \<^verbatim>\<open>ZeroDivisionError\<close> when \<^verbatim>\<open>b\<close> is zero.\<close>

definition py_div :: "real \<Rightarrow> real \<Rightarrow> error + real" where
  "py_div a b = (if b = 0 then Inl ZeroDivisionError else Inr (a / b))"

text \<open>\<^verbatim>\<open>range(n)\<close>: empty when \<^verbatim>\<open>n\<close> is zero or negative.\<close>

definition range_py :: "int \<Rightarrow> int list" where
  "range_py n = map int [0 ..< nat n]"

text \<open>\<^verbatim>\<open>math.atan2(y, x)\<close>, \<^verbatim>\<open>math.degrees\<close> and \<^verbatim>\<open>math.radians\<close>.\<close>

definition atan2 :: "real \<Rightarrow> real \<Rightarrow> real" where
  "atan2 y x =
     (if 0 < x then arctan (y / x)
      else if x < 0 \<and> 0 \<le> y then arctan (y / x) + pi
      else if x < 0 then arctan (y / x) - pi
      else if 0 < y then pi / 2
      else if y < 0 then - (pi / 2)
      else 0)"

definition degrees :: "real \<Rightarrow> real" where
  "degrees r = r * 180 / pi"

definition radians :: "real \<Rightarrow> real" where
  "radians d = d * pi / 180"

subsection \<open>SLCParameters\<close>

text \<open>The keyword arguments of \<^verbatim>\<open>SLCParameters.__init__\<close>; \<^verbatim>\<open>None\<close> is \<^const>\<open>None\<close>.\<close>

record kwargs =
  kw_ascent :: "real option"
  kw_descent :: "real option"
  kw_width :: "real option"
  kw_pixelHeight :: "int option"
  kw_pixelWidth :: "int option"
  kw_diagonalFillAngle :: "real option"
  kw_diagonalFillWeight :: "real option"
  kw_diagonalSpaceWeight :: "real option"
  kw_boxLightWeight :: "real option"
  kw_boxHeavyWeight :: "real option"
  kw_boxDoubleGap :: "real option"
  kw_boxArcRadius :: "real option"
  kw_boxTickLength :: "real option"
  kw_boxLineTruncate :: "bool option"
  kw_separationTop :: "real option"
  kw_separationRight :: "real option"
  kw_separationBottom :: "real option"
  kw_separationLeft :: "real option"
  kw_file :: "string option"

definition no_kwargs :: kwargs where
  "no_kwargs =
     \<lparr>kw_ascent = None, kw_descent = None, kw_width = None,
      kw_pixelHeight = None, kw_pixelWidth = None,
      kw_diagonalFillAngle = None, kw_diagonalFillWeight = None,
      kw_diagonalSpaceWeight = None,
      kw_boxLightWeight = None, kw_boxHeavyWeight = None, kw_boxDoubleGap = None,
      kw_boxArcRadius = None, kw_boxTickLength = None, kw_boxLineTruncate = None,
      kw_separationTop = None, kw_separationRight = None,
      kw_separationBottom = None, kw_separationLeft = None,
      kw_file = None\<rparr>"

record SLCParameters =
  ascent :: real
  descent :: real
  height :: real
  width :: real
  pixelHeight :: int
  pixelWidth :: int
  diagonalFillAngle :: real
  diagonalFillWeight :: real
  diagonalSpaceWeight :: real
  boxLightWeight :: real
  boxHeavyWeight :: real
  boxDoubleGap :: real
  boxArcRadius :: real
  boxTickLength :: real
  boxLineTruncate :: bool
  separationTop :: real
  separationRight :: real
  separationBottom :: real
  separationLeft :: real
  outfile :: string

text \<open>
  \<^verbatim>\<open>SLCParameters.__init__\<close>, assignment by assignment. The model gives the values
  that the assignments compute on finite numbers. Every division in it is by a constant;
  what the model leaves out are the exceptions of Python's floats at the edge of their
  range: \<^verbatim>\<open>math.sin\<close> and \<^verbatim>\<open>math.cos\<close> raise \<^verbatim>\<open>ValueError\<close> for an infinite
  \<^verbatim>\<open>diagonalFillAngle\<close> (line 35), and an integer too large for a float raises
  \<^verbatim>\<open>OverflowError\<close> where it is divided.
\<close>

definition SLCParameters_init :: "kwargs \<Rightarrow> SLCParameters" where
  "SLCParameters_init kw =
     (let a = (case kw_ascent kw of Some v \<Rightarrow> v
               | None \<Rightarrow> (case kw_descent kw of Some d \<Rightarrow> d * 4 | None \<Rightarrow> 800));
          d = (case kw_descent kw of Some v \<Rightarrow> v
               | None \<Rightarrow> (case kw_ascent kw of Some a' \<Rightarrow> a' / 4 | None \<Rightarrow> 200));
          h = a + d;
          w = (case kw_width kw of Some v \<Rightarrow> v | None \<Rightarrow> h);
          ph = (case kw_pixelHeight kw of Some v \<Rightarrow> v
                | None \<Rightarrow> (case kw_pixelWidth kw of Some v \<Rightarrow> v | None \<Rightarrow> 20));
          pw = (case kw_pixelWidth kw of Some v \<Rightarrow> v
                | None \<Rightarrow> (case kw_pixelHeight kw of Some v \<Rightarrow> v | None \<Rightarrow> 20));
          dfa = (case kw_diagonalFillAngle kw of Some v \<Rightarrow> v | None \<Rightarrow> degrees (atan2 h w));
          dfw = (if kw_diagonalFillWeight kw = None \<and> kw_diagonalSpaceWeight kw = None
                 then (h * \<bar>cos (radians dfa)\<bar> + w * \<bar>sin (radians dfa)\<bar>) / 16
                 else (case kw_diagonalFillWeight kw of Some v \<Rightarrow> v
                       | None \<Rightarrow> (case kw_diagonalSpaceWeight kw of Some v \<Rightarrow> v | None \<Rightarrow> 0)));
          dsw = (if kw_diagonalFillWeight kw = None \<and> kw_diagonalSpaceWeight kw = None
                 then dfw
                 else (case kw_diagonalSpaceWeight kw of Some v \<Rightarrow> v
                       | None \<Rightarrow> (case kw_diagonalFillWeight kw of Some v \<Rightarrow> v | None \<Rightarrow> 0)));
          blw = (if kw_boxLightWeight kw = None \<and> kw_boxHeavyWeight kw = None
                 then h / 9
                 else (case kw_boxLightWeight kw of Some v \<Rightarrow> v
                       | None \<Rightarrow> (case kw_boxHeavyWeight kw of Some v \<Rightarrow> v / 2 | None \<Rightarrow> 0)));
          bhw = (if kw_boxLightWeight kw = None \<and> kw_boxHeavyWeight kw = None
                 then blw * 2
                 else (case kw_boxHeavyWeight kw of Some v \<Rightarrow> v
                       | None \<Rightarrow> (case kw_boxLightWeight kw of Some v \<Rightarrow> v * 2 | None \<Rightarrow> 0)));
          bdg = (case kw_boxDoubleGap kw of Some v \<Rightarrow> v | None \<Rightarrow> blw);
          bar = (case kw_boxArcRadius kw of Some v \<Rightarrow> v | None \<Rightarrow> min h w / 2);
          btl = (case kw_boxTickLength kw of Some v \<Rightarrow> v
                 | None \<Rightarrow> min (max h w / 3) (min h w / 2));
          blt = (case kw_boxLineTruncate kw of Some v \<Rightarrow> v | None \<Rightarrow> True);
          st = (case kw_separationTop kw of Some v \<Rightarrow> v | None \<Rightarrow>
               (case kw_separationBottom kw of Some v \<Rightarrow> v | None \<Rightarrow>
               (if kw_separationRight kw \<noteq> None \<and> kw_separationLeft kw = None
                then (case kw_separationRight kw of Some v \<Rightarrow> v | None \<Rightarrow> 0)
                else if kw_separationLeft kw \<noteq> None \<and> kw_separationRight kw = None
                then (case kw_separationLeft kw of Some v \<Rightarrow> v | None \<Rightarrow> 0)
                else h / 18)));
          sr = (case kw_separationRight kw of Some v \<Rightarrow> v | None \<Rightarrow>
               (case kw_separationLeft kw of Some v \<Rightarrow> v | None \<Rightarrow>
               (if kw_separationTop kw \<noteq> None \<and> kw_separationBottom kw = None
                then (case kw_separationTop kw of Some v \<Rightarrow> v | None \<Rightarrow> 0)
                else if kw_separationBottom kw \<noteq> None \<and> kw_separationTop kw = None
                then (case kw_separationBottom kw of Some v \<Rightarrow> v | None \<Rightarrow> 0)
                else h / 18)));
          sb = (case kw_separationBottom kw of Some v \<Rightarrow> v | None \<Rightarrow>
               (case kw_separationTop kw of Some v \<Rightarrow> v | None \<Rightarrow>
               (if kw_separationRight kw \<noteq> None \<and> kw_separationLeft kw = None
                then (case kw_separationRight kw of Some v \<Rightarrow> v | None \<Rightarrow> 0)
                else if kw_separationLeft kw \<noteq> None \<and> kw_separationRight kw = None
                then (case kw_separationLeft kw of Some v \<Rightarrow> v | None \<Rightarrow> 0)
                else h / 18)));
          sl = (case kw_separationLeft kw of Some v \<Rightarrow> v | None \<Rightarrow>
               (case kw_separationRight kw of Some v \<Rightarrow> v | None \<Rightarrow>
               (if kw_separationTop kw \<noteq> None \<and> kw_separationBottom kw = None
                then (case kw_separationTop kw of Some v \<Rightarrow> v | None \<Rightarrow> 0)
                else if kw_separationBottom kw \<noteq> None \<and> kw_separationTop kw = None
                then (case kw_separationBottom kw of Some v \<Rightarrow> v | None \<Rightarrow> 0)
                else h / 18)))
      in \<lparr>ascent = a, descent = d, height = h, width = w,
          pixelHeight = ph, pixelWidth = pw,
          diagonalFillAngle = dfa, diagonalFillWeight = dfw, diagonalSpaceWeight = dsw,
          boxLightWeight = blw, boxHeavyWeight = bhw, boxDoubleGap = bdg,
          boxArcRadius = bar, boxTickLength = btl, boxLineTruncate = blt,
          separationTop = st, separationRight = sr,
          separationBottom = sb, separationLeft = sl,
          outfile = (case kw_file kw of Some v \<Rightarrow> v | None \<Rightarrow> ''out.sfd'')\<rparr>)"

text \<open>
  The head of \<^verbatim>\<open>slcgen\<close> (the lines before the font is created): the parameters are
  resolved, then eight offsets are computed by divisions whose divisors come from the
  resolved width and height. A \<^verbatim>\<open>ZeroDivisionError\<close> here ends the run before
  \<^verbatim>\<open>fontforge.font()\<close> and any \<^verbatim>\<open>mkglyph\<close>. The divisions are exact here; in
  floating point a product in a divisor can also underflow to zero.
\<close>

record offsets =
  xe :: real
  ye :: real
  xg :: real
  yg :: real
  xgd :: real
  ygd :: real
  ty :: real
  tx :: real

definition slcgen_head :: "kwargs \<Rightarrow> error + SLCParameters \<times> offsets" where
  "slcgen_head kw =
     (let p = SLCParameters_init kw in
      case py_div (boxLightWeight p) (width p * 2) of Inl e \<Rightarrow> Inl e | Inr xe' \<Rightarrow>
      case py_div (boxLightWeight p) (height p * 2) of Inl e \<Rightarrow> Inl e | Inr ye' \<Rightarrow>
      case py_div (boxLightWeight p + boxDoubleGap p) (width p * 2) of Inl e \<Rightarrow> Inl e | Inr xg' \<Rightarrow>
      case py_div (boxLightWeight p + boxDoubleGap p) (height p * 2) of Inl e \<Rightarrow> Inl e | Inr yg' \<Rightarrow>
      case py_div (boxLightWeight p + boxDoubleGap p)
             (sin (atan2 (height p) (width p)) * width p * 2) of Inl e \<Rightarrow> Inl e | Inr xgd' \<Rightarrow>
      case py_div (boxLightWeight p + boxDoubleGap p)
             (cos (atan2 (height p) (width p)) * height p * 2) of Inl e \<Rightarrow> Inl e | Inr ygd' \<Rightarrow>
      case py_div (boxTickLength p) (height p) of Inl e \<Rightarrow> Inl e | Inr ty' \<Rightarrow>
      case py_div (boxTickLength p) (width p) of Inl e \<Rightarrow> Inl e | Inr tx' \<Rightarrow>
      Inr (p, \<lparr>xe = xe', ye = ye', xg = xg', yg = yg', xgd = xgd', ygd = ygd',
               ty = ty', tx = tx'\<rparr>))"

text \<open>
  The separation rule in the words of the specification: the side's own override, else
  the opposite side's, else the override of the other axis when exactly one side of
  that axis was given, else the default.
\<close>

definition spec_separation ::
  "real option \<Rightarrow> real option \<Rightarrow> real option \<Rightarrow> real option \<Rightarrow> real \<Rightarrow> real" where
  "spec_separation own opposite perp1 perp2 dflt =
     (case own of Some v \<Rightarrow> v | None \<Rightarrow>
     (case opposite of Some v \<Rightarrow> v | None \<Rightarrow>
     (case (perp1, perp2) of
        (Some v, None) \<Rightarrow> v
      | (None, Some v) \<Rightarrow> v
      | _ \<Rightarrow> dflt)))"

subsection \<open>Outlines and the FontForge engine\<close>

text \<open>
  A glyph layer is a list of contours; a contour is a list of points, each on the curve
  or a control point, and is closed (\<^verbatim>\<open>closePath\<close>) or open (\<^verbatim>\<open>endPath\<close>). The
  program only ever draws into the foreground layer, so a glyph has one list of
  contours and its advance width.
\<close>

record point =
  px :: real
  py :: real
  on_curve :: bool

record contour =
  cpoints :: "point list"
  is_closed :: bool

record glyph =
  contours :: "contour list"
  gwidth :: real

text \<open>
  The geometry that FontForge computes is not part of the program. Its operations are
  the fields of a record that every builder takes as its first argument:
  \<^verbatim>\<open>glyph.simplify()\<close>, \<^verbatim>\<open>glyph.removeOverlap()\<close>, \<^verbatim>\<open>glyph.intersect()\<close>,
  \<^verbatim>\<open>glyph.stroke(nib, weight, cap, join)\<close>, \<^verbatim>\<open>glyph.round()\<close>,
  \<^verbatim>\<open>fontforge.unitShape(n)\<close> and \<^verbatim>\<open>contour.reverseDirection()\<close>.
\<close>

record fontforge =
  simplify :: "contour list \<Rightarrow> contour list"
  removeOverlap :: "contour list \<Rightarrow> contour list"
  intersect :: "contour list \<Rightarrow> contour list"
  stroke :: "string \<Rightarrow> real \<Rightarrow> string \<Rightarrow> string \<Rightarrow> contour list \<Rightarrow> contour list"
  round_coords :: "contour list \<Rightarrow> contour list"
  unitShape :: "int \<Rightarrow> contour"
  reverseDirection :: "contour \<Rightarrow> contour"

text \<open>
  A pen path: \<^verbatim>\<open>moveTo\<close> the first point, \<^verbatim>\<open>lineTo\<close> the others, then
  \<^verbatim>\<open>closePath\<close> (closed) or \<^verbatim>\<open>endPath\<close> (open). All its points are on the curve.
\<close>

definition pen_path :: "bool \<Rightarrow> (real \<times> real) list \<Rightarrow> contour" where
  "pen_path cl pts =
     \<lparr>cpoints = map (\<lambda>(x, y). \<lparr>px = x, py = y, on_curve = True\<rparr>) pts, is_closed = cl\<rparr>"

definition rounded :: "real \<times> real \<Rightarrow> real \<times> real" where
  "rounded = (\<lambda>(x, y). (of_int (py_round x), of_int (py_round y)))"





subsection \<open>GlyphProxy: rectangles and polygons\<close>

definition rawrect :: "fontforge \<Rightarrow> glyph \<Rightarrow> real \<Rightarrow> real \<Rightarrow> real \<Rightarrow> real \<Rightarrow> glyph" where
  "rawrect ff g x1 y1 x2 y2 =
     g\<lparr>contours := simplify ff (contours g @
        [pen_path True [rounded (x1, y1), rounded (x2, y1), rounded (x2, y2), rounded (x1, y2)]])\<rparr>"

definition rect ::
  "fontforge \<Rightarrow> SLCParameters \<Rightarrow> glyph \<Rightarrow> real \<Rightarrow> real \<Rightarrow> real \<Rightarrow> real \<Rightarrow> glyph" where
  "rect ff p g x1 y1 x2 y2 =
     rawrect ff g (width p * x1) (ascent p - height p * y1)
                  (width p * x2) (ascent p - height p * y2)"

definition rawrectccw :: "fontforge \<Rightarrow> glyph \<Rightarrow> real \<Rightarrow> real \<Rightarrow> real \<Rightarrow> real \<Rightarrow> glyph" where
  "rawrectccw ff g x1 y1 x2 y2 =
     g\<lparr>contours := simplify ff (contours g @
        [pen_path True [rounded (x1, y1), rounded (x1, y2), rounded (x2, y2), rounded (x2, y1)]])\<rparr>"

definition rectccw ::
  "fontforge \<Rightarrow> SLCParameters \<Rightarrow> glyph \<Rightarrow> real \<Rightarrow> real \<Rightarrow> real \<Rightarrow> real \<Rightarrow> glyph" where
  "rectccw ff p g x1 y1 x2 y2 =
     rawrectccw ff g (width p * x1) (ascent p - height p * y1)
                     (width p * x2) (ascent p - height p * y2)"

text \<open>\<^verbatim>\<open>rawpoly\<close> reads \<^verbatim>\<open>points[0]\<close>: with no point it raises \<^verbatim>\<open>IndexError\<close>.\<close>

definition rawpoly :: "fontforge \<Rightarrow> glyph \<Rightarrow> (real \<times> real) list \<Rightarrow> error + glyph" where
  "rawpoly ff g points =
     (case points of
        [] \<Rightarrow> Inl IndexError
      | _ # _ \<Rightarrow> Inr (g\<lparr>contours := simplify ff (contours g @ [pen_path True (map rounded points)])\<rparr>))"

definition poly ::
  "fontforge \<Rightarrow> SLCParameters \<Rightarrow> glyph \<Rightarrow> (real \<times> real) list \<Rightarrow> error + glyph" where
  "poly ff p g points =
     rawpoly ff g (map (\<lambda>(x, y). (width p * x, ascent p - height p * y)) points)"

text \<open>
  \<^verbatim>\<open>_stripcontrolpoints\<close>: the on-curve points of every contour are collected, the
  glyph is cleared and given the advance width, and each polygon is drawn again.
\<close>

fun rawpolys :: "fontforge \<Rightarrow> glyph \<Rightarrow> (real \<times> real) list list \<Rightarrow> error + glyph" where
  "rawpolys ff g [] = Inr g"
| "rawpolys ff g (polygon # polygons) =
     (case rawpoly ff g polygon of Inl e \<Rightarrow> Inl e | Inr g' \<Rightarrow> rawpolys ff g' polygons)"

definition stripcontrolpoints :: "fontforge \<Rightarrow> SLCParameters \<Rightarrow> glyph \<Rightarrow> error + glyph" where
  "stripcontrolpoints ff p g =
     (let polygons = map (\<lambda>c. map (\<lambda>v. (px v, py v)) (filter on_curve (cpoints c))) (contours g)
      in rawpolys ff (g\<lparr>contours := [], gwidth := width p\<rparr>) polygons)"

subsection \<open>GlyphProxy: shades\<close>

text \<open>
  The two nested \<^verbatim>\<open>for\<close> loops are folds over \<^verbatim>\<open>range(rows)\<close> and
  \<^verbatim>\<open>range(cols)\<close>; the glyph is the state. \<^verbatim>\<open>float(x)/cols\<close> is only evaluated
  inside the inner loop, where \<^verbatim>\<open>cols\<close> is positive.
\<close>

definition shade ::
  "fontforge \<Rightarrow> SLCParameters \<Rightarrow> glyph \<Rightarrow> int \<Rightarrow> int \<Rightarrow> bool \<Rightarrow> glyph" where
  "shade ff p g rows cols inverse' =
     fold (\<lambda>y g. fold (\<lambda>x g.
        if ((x + y) AND 1) XOR ((rows + cols) AND 1) XOR (if inverse' then 0 else 1) \<noteq> 0
        then rect ff p g (of_int x / of_int cols) (of_int y / of_int rows)
                         (of_int (x + 1) / of_int cols) (of_int (y + 1) / of_int rows)
        else g) (range_py cols) g) (range_py rows) g"

definition ltshade :: "fontforge \<Rightarrow> SLCParameters \<Rightarrow> glyph \<Rightarrow> int \<Rightarrow> int \<Rightarrow> glyph" where
  "ltshade ff p g rows cols =
     fold (\<lambda>y g. fold (\<lambda>x g.
        if (x + y) AND 1 = (rows + cols) AND 1
        then rect ff p g (of_int x / of_int cols) (of_int (y * 2) / of_int rows)
                         (of_int (x + 1) / of_int cols) (of_int (y * 2 + 1) / of_int rows)
        else g) (range_py cols) g) (range_py (rows div 2)) g"

definition dkshade ::
  "fontforge \<Rightarrow> SLCParameters \<Rightarrow> glyph \<Rightarrow> int \<Rightarrow> int \<Rightarrow> error + glyph" where
  "dkshade ff p g rows cols =
     (let g1 = fold (\<lambda>y g. fold (\<lambda>x g.
            if (x + y) AND 1 = (rows + cols) AND 1
            then rectccw ff p g (of_int x / of_int cols) (of_int (y * 2) / of_int rows)
                                (of_int (x + 1) / of_int cols) (of_int (y * 2 + 1) / of_int rows)
            else g) (range_py cols) g) (range_py (rows div 2)) g;
          g2 = rect ff p g1 0 0 1 1;
          g3 = g2\<lparr>contours := removeOverlap ff (contours g2)\<rparr>;
          g4 = g3\<lparr>contours := simplify ff (contours g3)\<rparr>
      in stripcontrolpoints ff p g4)"

subsection \<open>GlyphProxy: ellipses\<close>



subsection \<open>FontProxy and the box-drawing strokes\<close>

text \<open>
  The font is a store of glyphs by code point. \<^verbatim>\<open>font.createChar(cp)\<close> returns the
  glyph in that slot, making an empty one (advance width: the em size) when the slot is
  free. A \<^verbatim>\<open>GlyphProxy\<close> is its parameters and the code point of its glyph: the
  scratch glyph of \<^verbatim>\<open>_boxdrawline\<close> lives in the same store, so the store is passed
  through.
\<close>

record font =
  font_ascent :: real
  font_descent :: real
  glyphs :: "int \<rightharpoonup> glyph"

definition createChar :: "font \<Rightarrow> int \<Rightarrow> font" where
  "createChar f cp =
     (case glyphs f cp of
        Some g \<Rightarrow> f
      | None \<Rightarrow> f\<lparr>glyphs := (glyphs f)(cp \<mapsto> \<lparr>contours = [], gwidth = font_ascent f + font_descent f\<rparr>)\<rparr>)"

definition glyph_of :: "font \<Rightarrow> int \<Rightarrow> glyph" where
  "glyph_of f cp =
     (case glyphs f cp of
        Some g \<Rightarrow> g
      | None \<Rightarrow> \<lparr>contours = [], gwidth = font_ascent f + font_descent f\<rparr>)"

definition put_glyph :: "font \<Rightarrow> int \<Rightarrow> glyph \<Rightarrow> font" where
  "put_glyph f cp g = f\<lparr>glyphs := (glyphs f)(cp \<mapsto> g)\<rparr>"

text \<open>\<^verbatim>\<open>FontProxy.mkfont\<close> (the metrics that the store uses) and \<^verbatim>\<open>FontProxy.mkglyph\<close>.\<close>

definition mkfont :: "SLCParameters \<Rightarrow> font \<Rightarrow> font" where
  "mkfont p f = f\<lparr>font_ascent := ascent p, font_descent := descent p\<rparr>"

definition mkglyph :: "SLCParameters \<Rightarrow> font \<Rightarrow> int \<Rightarrow> font" where
  "mkglyph p f cp =
     (let f1 = createChar f cp
      in put_glyph f1 cp ((glyph_of f1 cp)\<lparr>contours := [], gwidth := width p\<rparr>))"

text \<open>
  \<^verbatim>\<open>_extendpoints\<close> reads \<^verbatim>\<open>points[0]\<close>, \<^verbatim>\<open>points[1]\<close>, \<^verbatim>\<open>points[-2]\<close> and
  \<^verbatim>\<open>points[-1]\<close>: \<^verbatim>\<open>IndexError\<close> with fewer than two points. \<^verbatim>\<open>points[1:-1]\<close> is the
  list without its first and last element.
\<close>

definition extendpoints :: "(real \<times> real) list \<Rightarrow> error + (real \<times> real) list" where
  "extendpoints points =
     (if length points < 2 then Inl IndexError
      else (case (points ! 0, points ! 1,
                  points ! (length points - 2), points ! (length points - 1)) of
              ((x0, y0), (x1, y1), (x2, y2), (x3, y3)) \<Rightarrow>
                Inr ([(x0 - (x1 - x0), y0 - (y1 - y0))] @ butlast (tl points)
                     @ [(x3 - (x2 - x3), y3 - (y2 - y3))])))"

text \<open>
  \<^verbatim>\<open>_boxdrawline\<close>. The scratch glyph is the glyph of code point 32;
  \<^verbatim>\<open>glyphPen(replace=True)\<close> empties it. After the stroke it is drawn into the glyph of
  the proxy (code point \<open>cp\<close>), cleared, and given the advance width again.
\<close>

definition line_path :: "SLCParameters \<Rightarrow> (real \<times> real) list \<Rightarrow> contour" where
  "line_path p line =
     pen_path False (map (\<lambda>(x, y). rounded (width p * x, ascent p - height p * y)) line)"

definition em_box :: "SLCParameters \<Rightarrow> contour" where
  "em_box p =
     pen_path True [(0, ascent p), (width p, ascent p), (width p, - descent p), (0, - descent p)]"

definition boxdrawline ::
  "fontforge \<Rightarrow> SLCParameters \<Rightarrow> font \<Rightarrow> int \<Rightarrow> (real \<times> real) list \<Rightarrow> real \<Rightarrow> bool
     \<Rightarrow> error + font" where
  "boxdrawline ff p f cp line weight truncate' =
     (let f1 = createChar f 32;
          stroked =
            (if truncate'
             then (case extendpoints line of
                     Inl e \<Rightarrow> Inl e
                   | Inr line' \<Rightarrow>
                       Inr (intersect ff
                         (stroke ff ''circular'' weight ''square'' ''miter'' [line_path p line']
                          @ [em_box p])))
             else (case line of
                     [] \<Rightarrow> Inl IndexError
                   | _ # _ \<Rightarrow> Inr (stroke ff ''circular'' weight ''butt'' ''miter'' [line_path p line])))
      in case stroked of
           Inl e \<Rightarrow> Inl e
         | Inr cs \<Rightarrow>
             (let f2 = put_glyph f1 32 ((glyph_of f1 32)\<lparr>contours := simplify ff cs\<rparr>);
                  f3 = put_glyph f2 cp ((glyph_of f2 cp)
                         \<lparr>contours := contours (glyph_of f2 cp) @ contours (glyph_of f2 32)\<rparr>)
              in Inr (put_glyph f3 32 ((glyph_of f3 32)\<lparr>contours := [], gwidth := width p\<rparr>))))"

fun boxdrawlines ::
  "fontforge \<Rightarrow> SLCParameters \<Rightarrow> font \<Rightarrow> int \<Rightarrow> (real \<times> real) list list \<Rightarrow> real \<Rightarrow> bool
     \<Rightarrow> error + font" where
  "boxdrawlines ff p f cp [] weight truncate' = Inr f"
| "boxdrawlines ff p f cp (line # lines) weight truncate' =
     (case boxdrawline ff p f cp line weight truncate' of
        Inl e \<Rightarrow> Inl e
      | Inr f' \<Rightarrow> boxdrawlines ff p f' cp lines weight truncate')"

text \<open>
  The three lines that end every box-drawing builder: \<^verbatim>\<open>removeOverlap\<close>,
  \<^verbatim>\<open>simplify\<close> and \<^verbatim>\<open>_stripcontrolpoints\<close> on the glyph of the proxy.
\<close>

definition merge_outline :: "fontforge \<Rightarrow> SLCParameters \<Rightarrow> font \<Rightarrow> int \<Rightarrow> error + font" where
  "merge_outline ff p f cp =
     (let g = glyph_of f cp;
          g1 = g\<lparr>contours := removeOverlap ff (contours g)\<rparr>;
          g2 = g1\<lparr>contours := simplify ff (contours g1)\<rparr>
      in case stripcontrolpoints ff p g2 of
           Inl e \<Rightarrow> Inl e
         | Inr g3 \<Rightarrow> Inr (put_glyph f cp g3))"

definition boxdrawlight ::
  "fontforge \<Rightarrow> SLCParameters \<Rightarrow> font \<Rightarrow> int \<Rightarrow> (real \<times> real) list list \<Rightarrow> error + font" where
  "boxdrawlight ff p f cp lines =
     (case boxdrawlines ff p f cp lines (boxLightWeight p) False of
        Inl e \<Rightarrow> Inl e
      | Inr f' \<Rightarrow> merge_outline ff p f' cp)"

definition boxdrawheavy ::
  "fontforge \<Rightarrow> SLCParameters \<Rightarrow> font \<Rightarrow> int \<Rightarrow> (real \<times> real) list list \<Rightarrow> error + font" where
  "boxdrawheavy ff p f cp lines =
     (case boxdrawlines ff p f cp lines (boxHeavyWeight p) False of
        Inl e \<Rightarrow> Inl e
      | Inr f' \<Rightarrow> merge_outline ff p f' cp)"

definition boxdrawmixed ::
  "fontforge \<Rightarrow> SLCParameters \<Rightarrow> font \<Rightarrow> int \<Rightarrow> (real \<times> real) list list
     \<Rightarrow> (real \<times> real) list list \<Rightarrow> error + font" where
  "boxdrawmixed ff p f cp lightLines heavyLines =
     (case boxdrawlines ff p f cp lightLines (boxLightWeight p) False of
        Inl e \<Rightarrow> Inl e
      | Inr f' \<Rightarrow>
          (case boxdrawlines ff p f' cp heavyLines (boxHeavyWeight p) False of
             Inl e \<Rightarrow> Inl e
           | Inr f'' \<Rightarrow> merge_outline ff p f'' cp))"

definition boxdrawdiag ::
  "fontforge \<Rightarrow> SLCParameters \<Rightarrow> font \<Rightarrow> int \<Rightarrow> (real \<times> real) list list \<Rightarrow> error + font" where
  "boxdrawdiag ff p f cp lines =
     (case boxdrawlines ff p f cp lines (boxLightWeight p) (boxLineTruncate p) of
        Inl e \<Rightarrow> Inl e
      | Inr f' \<Rightarrow> merge_outline ff p f' cp)"

subsection \<open>The region an outline fills\<close>

text \<open>
  FontForge fills an outline by the nonzero winding rule: a point is inside when the
  contours wind around it a number of times other than zero, a contour drawn the other
  way round counting negative (this is how \<^verbatim>\<open>_rectccw\<close> cuts holes). The winding
  number of a polygon around a point is counted by the crossings of the ray from the
  point to the right: an edge going up with the point on its left counts 1, an edge going
  down with the point on its right counts -1. The lower end of an edge belongs to it and
  the upper end does not, so a rectangle contains its left and bottom sides and not its
  right and top sides, and rectangles that share a side tile the plane.
\<close>

definition isLeft :: "real \<times> real \<Rightarrow> real \<times> real \<Rightarrow> real \<times> real \<Rightarrow> real" where
  "isLeft a b q = (fst b - fst a) * (snd q - snd a) - (fst q - fst a) * (snd b - snd a)"

definition edge_wn :: "real \<times> real \<Rightarrow> real \<times> real \<Rightarrow> real \<times> real \<Rightarrow> int" where
  "edge_wn q a b =
     (if snd a \<le> snd q \<and> snd q < snd b \<and> 0 < isLeft a b q then 1
      else if snd b \<le> snd q \<and> snd q < snd a \<and> isLeft a b q < 0 then - 1
      else 0)"

definition contour_wn :: "contour \<Rightarrow> real \<times> real \<Rightarrow> int" where
  "contour_wn c q =
     (let vs = map (\<lambda>v. (px v, py v)) (cpoints c)
      in sum_list (map (\<lambda>(a, b). edge_wn q a b) (zip vs (rotate1 vs))))"

definition winding :: "contour list \<Rightarrow> real \<times> real \<Rightarrow> int" where
  "winding cs q = sum_list (map (\<lambda>c. contour_wn c q) cs)"

definition filled :: "contour list \<Rightarrow> real \<times> real \<Rightarrow> bool" where
  "filled cs q = (winding cs q \<noteq> 0)"

text \<open>
  The part of a line between two coordinates, taken from the lower one (included) to the
  higher one (excluded), whichever of the two comes first.
\<close>

definition between :: "real \<Rightarrow> real \<Rightarrow> real \<Rightarrow> bool" where
  "between a b t = ((a \<le> t \<and> t < b) \<or> (b \<le> t \<and> t < a))"

text \<open>
  The design coordinates that \<^verbatim>\<open>rect\<close> and \<^verbatim>\<open>rawrect\<close> give to a point of the unit
  square, and the region of the rectangle drawn by \<^verbatim>\<open>rect(x1, y1, x2, y2)\<close>; cell
  \<open>(x, y)\<close> of a grid of \<open>rows\<close> by \<open>cols\<close> cells is the rectangle that the shade
  builders draw for it.
\<close>

definition design_x :: "SLCParameters \<Rightarrow> real \<Rightarrow> real" where
  "design_x p x = of_int (py_round (width p * x))"

definition design_y :: "SLCParameters \<Rightarrow> real \<Rightarrow> real" where
  "design_y p y = of_int (py_round (ascent p - height p * y))"

definition in_rect :: "SLCParameters \<Rightarrow> real \<Rightarrow> real \<Rightarrow> real \<Rightarrow> real \<Rightarrow> real \<times> real \<Rightarrow> bool" where
  "in_rect p x1 y1 x2 y2 q =
     (between (design_x p x1) (design_x p x2) (fst q)
      \<and> between (design_y p y2) (design_y p y1) (snd q))"

definition in_cell :: "SLCParameters \<Rightarrow> int \<Rightarrow> int \<Rightarrow> int \<Rightarrow> int \<Rightarrow> real \<times> real \<Rightarrow> bool" where
  "in_cell p rows cols x y q =
     in_rect p (of_int x / of_int cols) (of_int y / of_int rows)
               (of_int (x + 1) / of_int cols) (of_int (y + 1) / of_int rows) q"

text \<open>
  What the builders need from the engine. A polygonal outline has contours that are not
  empty, with all points on the curve and at integer coordinates (what the pen draws
  after \<^verbatim>\<open>round\<close>). On such outlines \<^verbatim>\<open>simplify\<close> returns a polygonal outline with
  the same winding numbers, and \<^verbatim>\<open>removeOverlap\<close> a polygonal outline that fills the
  same region.
\<close>

definition polygonal :: "contour list \<Rightarrow> bool" where
  "polygonal cs =
     list_all (\<lambda>c. cpoints c \<noteq> []
        \<and> list_all (\<lambda>v. on_curve v \<and> of_int \<lfloor>px v\<rfloor> = px v \<and> of_int \<lfloor>py v\<rfloor> = py v)
             (cpoints c)) cs"

definition region_keeping :: "fontforge \<Rightarrow> bool" where
  "region_keeping ff =
     (\<forall>cs. polygonal cs \<longrightarrow>
        polygonal (simplify ff cs) \<and> (\<forall>q. winding (simplify ff cs) q = winding cs q)
        \<and> polygonal (removeOverlap ff cs) \<and> (\<forall>q. filled (removeOverlap ff cs) q = filled cs q))"

text \<open>
  The engine that leaves every outline as it was drawn, and the glyph that
  \<^verbatim>\<open>mkglyph\<close> hands to a builder: no contours, the advance width of the parameters.
\<close>

definition plain_engine :: fontforge where
  "plain_engine =
     \<lparr>simplify = (\<lambda>cs. cs), removeOverlap = (\<lambda>cs. cs), intersect = (\<lambda>cs. cs),
      stroke = (\<lambda>nib weight cap join cs. cs), round_coords = (\<lambda>cs. cs),
      unitShape = (\<lambda>n. \<lparr>cpoints = [], is_closed = True\<rparr>),
      reverseDirection = (\<lambda>c. c)\<rparr>"

definition fresh_glyph :: "SLCParameters \<Rightarrow> glyph" where
  "fresh_glyph p = \<lparr>contours = [], gwidth = width p\<rparr>"

text \<open>
  For the proofs: \<open>seg a b t\<close> is 1 when \<open>t\<close> is between \<open>a\<close> and \<open>b\<close> in this
  order, -1 when it is between them in the other order and 0 outside; \<open>cell_term\<close>
  is the product of the two steps of a cell, the winding number of its rectangle up to
  the sign.
\<close>

definition seg :: "real \<Rightarrow> real \<Rightarrow> real \<Rightarrow> int" where
  "seg a b t = (if a \<le> t then 1 else 0) - (if b \<le> t then 1 else 0)"

definition cell_term :: "SLCParameters \<Rightarrow> int \<Rightarrow> int \<Rightarrow> int \<Rightarrow> int \<Rightarrow> real \<times> real \<Rightarrow> int" where
  "cell_term p rows cols x y q =
     seg (design_x p (of_int x / of_int cols)) (design_x p (of_int (x + 1) / of_int cols)) (fst q)
     * seg (design_y p (of_int (y + 1) / of_int rows)) (design_y p (of_int y / of_int rows)) (snd q)"

subsection \<open>What the box-drawing claims speak of\<close>

text \<open>
  The contours that \<^verbatim>\<open>_boxdrawline\<close> has in the scratch glyph when it draws them
  into the glyph of the proxy: the stroke under one of the two policies, simplified.
\<close>

definition stroked_line ::
  "fontforge \<Rightarrow> SLCParameters \<Rightarrow> (real \<times> real) list \<Rightarrow> real \<Rightarrow> bool \<Rightarrow> error + contour list" where
  "stroked_line ff p line weight truncate' =
     (if truncate'
      then (case extendpoints line of
              Inl e \<Rightarrow> Inl e
            | Inr line' \<Rightarrow>
                Inr (simplify ff (intersect ff
                  (stroke ff ''circular'' weight ''square'' ''miter'' [line_path p line']
                   @ [em_box p]))))
      else (case line of
              [] \<Rightarrow> Inl IndexError
            | _ # _ \<Rightarrow>
                Inr (simplify ff (stroke ff ''circular'' weight ''butt'' ''miter'' [line_path p line]))))"

text \<open>
  The store when \<^verbatim>\<open>_boxdrawline\<close> has stroked and simplified the line (line 267
  has run): the scratch glyph, made by \<^verbatim>\<open>createChar(32)\<close>, holds the stroke.
\<close>

definition scratch_stroke ::
  "fontforge \<Rightarrow> SLCParameters \<Rightarrow> font \<Rightarrow> (real \<times> real) list \<Rightarrow> real \<Rightarrow> bool \<Rightarrow> error + font" where
  "scratch_stroke ff p f line weight truncate' =
     (case stroked_line ff p line weight truncate' of
        Inl e \<Rightarrow> Inl e
      | Inr cs \<Rightarrow> Inr (put_glyph (createChar f 32) 32 ((glyph_of f 32)\<lparr>contours := cs\<rparr>)))"

text \<open>
  The glyph of the space (code point 32) is blank: no contours, the advance width of the
  parameters. A step keeps the others when every glyph but the space and the target is
  as before. \<^verbatim>\<open>fontforge.font()\<close> is an empty font with an em of 1000 units.
\<close>

definition space_blank :: "SLCParameters \<Rightarrow> font \<Rightarrow> bool" where
  "space_blank p f = (glyphs f 32 = Some \<lparr>contours = [], gwidth = width p\<rparr>)"

definition keeps_others :: "font \<Rightarrow> int \<Rightarrow> font \<Rightarrow> bool" where
  "keeps_others f cp f' = (\<forall>c. c \<noteq> cp \<and> c \<noteq> 32 \<longrightarrow> glyphs f' c = glyphs f c)"

definition new_font :: font where
  "new_font = \<lparr>font_ascent = 800, font_descent = 200, glyphs = Map.empty\<rparr>"

section \<open>Metric resolution\<close>

text \<open>
  C8. The ascent is its override, else four times the descent when that is given, else
  800; the descent is its override, else a quarter of the ascent when that is given,
  else 200; the height is always ascent plus descent; the width is its override, else
  the height. With no ascent and a descent of 200 this gives ascent 800, height 1000
  and, with no width given, width 1000.
\<close>

theorem C8_metric_resolution:
  "ascent (SLCParameters_init kw) =
     (case kw_ascent kw of Some a \<Rightarrow> a
      | None \<Rightarrow> (case kw_descent kw of Some d \<Rightarrow> 4 * d | None \<Rightarrow> 800))
   \<and> descent (SLCParameters_init kw) =
     (case kw_descent kw of Some d \<Rightarrow> d
      | None \<Rightarrow> (case kw_ascent kw of Some a \<Rightarrow> a / 4 | None \<Rightarrow> 200))
   \<and> height (SLCParameters_init kw) =
       ascent (SLCParameters_init kw) + descent (SLCParameters_init kw)
   \<and> width (SLCParameters_init kw) =
     (case kw_width kw of Some w \<Rightarrow> w | None \<Rightarrow> height (SLCParameters_init kw))
   \<and> ascent (SLCParameters_init (kw\<lparr>kw_ascent := None, kw_descent := Some 200\<rparr>)) = 800
   \<and> height (SLCParameters_init (kw\<lparr>kw_ascent := None, kw_descent := Some 200\<rparr>)) = 1000
   \<and> width (SLCParameters_init
        (kw\<lparr>kw_ascent := None, kw_descent := Some 200, kw_width := None\<rparr>)) = 1000"
  by (simp add: SLCParameters_init_def Let_def split: option.split)

text \<open>
  C4. Each of the four separations is its own override, else the override of the
  opposite side, else the override of the other axis when exactly one side of that axis
  was given, else a eighteenth of the height. With only \<^verbatim>\<open>separationLeft\<close> given all
  four sides take its value; with top and bottom given and neither left nor right, left
  and right are a eighteenth of the height.
\<close>

theorem C4_separation_resolution:
  "separationTop (SLCParameters_init kw) =
     spec_separation (kw_separationTop kw) (kw_separationBottom kw)
       (kw_separationRight kw) (kw_separationLeft kw) (height (SLCParameters_init kw) / 18)
   \<and> separationRight (SLCParameters_init kw) =
     spec_separation (kw_separationRight kw) (kw_separationLeft kw)
       (kw_separationTop kw) (kw_separationBottom kw) (height (SLCParameters_init kw) / 18)
   \<and> separationBottom (SLCParameters_init kw) =
     spec_separation (kw_separationBottom kw) (kw_separationTop kw)
       (kw_separationRight kw) (kw_separationLeft kw) (height (SLCParameters_init kw) / 18)
   \<and> separationLeft (SLCParameters_init kw) =
     spec_separation (kw_separationLeft kw) (kw_separationRight kw)
       (kw_separationTop kw) (kw_separationBottom kw) (height (SLCParameters_init kw) / 18)
   \<and> (let only_left = SLCParameters_init
          (kw\<lparr>kw_separationTop := None, kw_separationRight := None,
              kw_separationBottom := None, kw_separationLeft := Some v\<rparr>)
      in separationTop only_left = v \<and> separationRight only_left = v
         \<and> separationBottom only_left = v \<and> separationLeft only_left = v)
   \<and> (let top_bottom = SLCParameters_init
          (kw\<lparr>kw_separationTop := Some t, kw_separationBottom := Some b,
              kw_separationRight := None, kw_separationLeft := None\<rparr>)
      in separationLeft top_bottom = height top_bottom / 18
         \<and> separationRight top_bottom = height top_bottom / 18)"
  by (simp add: SLCParameters_init_def spec_separation_def Let_def split: option.split)

section \<open>The head of slcgen\<close>

text \<open>
  In exact arithmetic the angle \<^verbatim>\<open>atan2(height, width)\<close> has a sine other than zero
  when the height is not zero and a cosine other than zero when the width is not zero,
  so there the divisors of \<^verbatim>\<open>xgd\<close> and \<^verbatim>\<open>ygd\<close> vanish only when the width or the
  height does. (In floating point they can also vanish by underflow.)
\<close>

lemma sin_atan2_nz: "w \<noteq> 0 \<Longrightarrow> h \<noteq> 0 \<Longrightarrow> sin (atan2 h w) \<noteq> 0"
  by (auto simp: atan2_def sin_arctan sin_diff sin_add add_nonneg_eq_0_iff)

lemma cos_atan2_nz: "w \<noteq> 0 \<Longrightarrow> cos (atan2 h w) \<noteq> 0"
  by (auto simp: atan2_def cos_arctan cos_diff cos_add add_nonneg_eq_0_iff)

lemma slcgen_head_cases:
  "slcgen_head kw =
     (let p = SLCParameters_init kw in
      if width p = 0 \<or> height p = 0 then Inl ZeroDivisionError
      else Inr (p, \<lparr>xe = boxLightWeight p / (width p * 2),
                    ye = boxLightWeight p / (height p * 2),
                    xg = (boxLightWeight p + boxDoubleGap p) / (width p * 2),
                    yg = (boxLightWeight p + boxDoubleGap p) / (height p * 2),
                    xgd = (boxLightWeight p + boxDoubleGap p)
                            / (sin (atan2 (height p) (width p)) * width p * 2),
                    ygd = (boxLightWeight p + boxDoubleGap p)
                            / (cos (atan2 (height p) (width p)) * height p * 2),
                    ty = boxTickLength p / height p,
                    tx = boxTickLength p / width p\<rparr>))"
  by (simp add: slcgen_head_def py_div_def Let_def sin_atan2_nz cos_atan2_nz)

lemma metrics_no_kwargs:
  "width (SLCParameters_init (no_kwargs\<lparr>kw_pixelWidth := Some 0\<rparr>)) = 1000"
  "height (SLCParameters_init (no_kwargs\<lparr>kw_pixelWidth := Some 0\<rparr>)) = 1000"
  "pixelWidth (SLCParameters_init (no_kwargs\<lparr>kw_pixelWidth := Some 0\<rparr>)) = 0"
  "width (SLCParameters_init (no_kwargs\<lparr>kw_width := Some (- 1000)\<rparr>)) = - 1000"
  "height (SLCParameters_init (no_kwargs\<lparr>kw_width := Some (- 1000)\<rparr>)) = 1000"
  by (simp_all add: SLCParameters_init_def no_kwargs_def Let_def)

text \<open>
  C2, as stated, fails: no validation takes place. With \<^verbatim>\<open>pixelWidth=0\<close> the
  resolved pixel width is zero, and with \<^verbatim>\<open>width=-1000\<close> the resolved width is
  negative; in both runs, with every other parameter at its default, the parameters are
  resolved and the head of \<^verbatim>\<open>slcgen\<close> ends without an error, so glyph building
  starts.
\<close>

theorem C2_counterexample:
  "pixelWidth (SLCParameters_init (no_kwargs\<lparr>kw_pixelWidth := Some 0\<rparr>)) = 0
   \<and> \<not> isl (slcgen_head (no_kwargs\<lparr>kw_pixelWidth := Some 0\<rparr>))
   \<and> width (SLCParameters_init (no_kwargs\<lparr>kw_width := Some (- 1000)\<rparr>)) = - 1000
   \<and> \<not> isl (slcgen_head (no_kwargs\<lparr>kw_width := Some (- 1000)\<rparr>))"
  by (simp add: slcgen_head_cases metrics_no_kwargs Let_def)

text \<open>
  C2, amended. Parameter resolution has no check of the resolved width, height, pixel
  width or pixel height, and there is no \<^verbatim>\<open>InvalidParameterError\<close>. A resolved width
  or height of zero does stop the run before any glyph is built: the head of
  \<^verbatim>\<open>slcgen\<close> divides by \<^verbatim>\<open>width * 2.0\<close> and \<^verbatim>\<open>height * 2.0\<close>. Whether the head
  stops the run never depends on the pixel width or the pixel height, whatever their
  values; zero and negative ones, and a negative width, are accepted (the two runs
  above).
\<close>

lemma metrics_pixel_free:
  "width (SLCParameters_init (kw\<lparr>kw_pixelHeight := a, kw_pixelWidth := b\<rparr>))
     = width (SLCParameters_init kw)"
  "height (SLCParameters_init (kw\<lparr>kw_pixelHeight := a, kw_pixelWidth := b\<rparr>))
     = height (SLCParameters_init kw)"
  by (simp_all add: SLCParameters_init_def Let_def split: option.split)

theorem C2_unchecked_dimensions:
  "(width (SLCParameters_init kw) = 0 \<or> height (SLCParameters_init kw) = 0
      \<longrightarrow> isl (slcgen_head kw))
   \<and> isl (slcgen_head (kw\<lparr>kw_pixelHeight := a, kw_pixelWidth := b\<rparr>)) = isl (slcgen_head kw)"
  by (simp add: slcgen_head_cases Let_def metrics_pixel_free)

theorem C2_unchecked_dimensions_witness:
  "width (SLCParameters_init (no_kwargs\<lparr>kw_width := Some 0\<rparr>)) = 0
   \<and> isl (slcgen_head (no_kwargs\<lparr>kw_width := Some 0\<rparr>))"
proof -
  have w: "width (SLCParameters_init (no_kwargs\<lparr>kw_width := Some 0\<rparr>)) = 0"
    by (simp add: SLCParameters_init_def no_kwargs_def Let_def)
  from C2_unchecked_dimensions [of "no_kwargs\<lparr>kw_width := Some 0\<rparr>"] w
  show ?thesis by blast
qed

section \<open>Rectangles and their regions\<close>

text \<open>
  The winding number of a rectangle drawn by the pen is the product of two steps, one for
  each axis, negative for \<^verbatim>\<open>rawrect\<close> and positive for \<^verbatim>\<open>_rawrectccw\<close>.
\<close>

lemma rect_wn:
  "contour_wn (pen_path True [(x1, y1), (x2, y1), (x2, y2), (x1, y2)]) (qx, qy)
     = - (seg x1 x2 qx * seg y2 y1 qy)"
  by (auto simp: contour_wn_def pen_path_def edge_wn_def isLeft_def seg_def
        zero_less_mult_iff mult_less_0_iff)

lemma rectccw_wn:
  "contour_wn (pen_path True [(x1, y1), (x1, y2), (x2, y2), (x2, y1)]) (qx, qy)
     = seg x1 x2 qx * seg y2 y1 qy"
  by (auto simp: contour_wn_def pen_path_def edge_wn_def isLeft_def seg_def
        zero_less_mult_iff mult_less_0_iff)

lemma py_round_of_int [simp]: "py_round (of_int n) = n"
  by (simp add: py_round_def)

lemma py_round_mono: "x \<le> y \<Longrightarrow> py_round x \<le> py_round y"
proof -
  assume xy: "x \<le> y"
  have fl: "\<lfloor>x\<rfloor> \<le> \<lfloor>y\<rfloor>" using xy by (rule floor_mono)
  have lo: "\<And>z. \<lfloor>z\<rfloor> \<le> py_round z" by (simp add: py_round_def Let_def)
  have hi: "\<And>z. py_round z \<le> \<lfloor>z\<rfloor> + 1" by (simp add: py_round_def Let_def)
  show ?thesis
  proof (cases "\<lfloor>x\<rfloor> < \<lfloor>y\<rfloor>")
    case True
    then have "py_round x \<le> \<lfloor>y\<rfloor>" using hi [of x] by linarith
    then show ?thesis using lo [of y] by linarith
  next
    case False
    then have eq: "\<lfloor>x\<rfloor> = \<lfloor>y\<rfloor>" using fl by linarith
    then show ?thesis using xy by (auto simp: py_round_def Let_def)
  qed
qed

lemma winding_append [simp]: "winding (cs @ ds) q = winding cs q + winding ds q"
  by (simp add: winding_def)

lemma winding_single [simp]: "winding [c] q = contour_wn c q"
  by (simp add: winding_def)

lemma polygonal_append [simp]: "polygonal (cs @ ds) = (polygonal cs \<and> polygonal ds)"
  by (simp add: polygonal_def)

lemma polygonal_Nil [simp]: "polygonal []"
  by (simp add: polygonal_def)

lemma polygonal_rounded_path:
  "pts \<noteq> [] \<Longrightarrow> polygonal [pen_path cl (map rounded pts)]"
  by (auto simp: polygonal_def pen_path_def rounded_def list_all_iff)

lemma polygonal_rounded4:
  "polygonal [pen_path cl [rounded a, rounded b, rounded c, rounded d]]"
  using polygonal_rounded_path [of "[a, b, c, d]" cl] by simp

lemma region_keeping_simplify:
  "region_keeping ff \<Longrightarrow> polygonal cs \<Longrightarrow>
     polygonal (simplify ff cs) \<and> winding (simplify ff cs) q = winding cs q"
  unfolding region_keeping_def by blast

lemma region_keeping_removeOverlap:
  "region_keeping ff \<Longrightarrow> polygonal cs \<Longrightarrow>
     polygonal (removeOverlap ff cs) \<and> filled (removeOverlap ff cs) q = filled cs q"
  unfolding region_keeping_def by blast

lemma rect_step:
  assumes "region_keeping ff" and "polygonal (contours g)"
  shows "polygonal (contours (rect ff p g x1 y1 x2 y2))
    \<and> winding (contours (rect ff p g x1 y1 x2 y2)) q =
        winding (contours g) q
        - seg (design_x p x1) (design_x p x2) (fst q) * seg (design_y p y2) (design_y p y1) (snd q)"
proof -
  obtain qx qy where q: "q = (qx, qy)" by (cases q)
  let ?r = "pen_path True (map rounded [(width p * x1, ascent p - height p * y1),
     (width p * x2, ascent p - height p * y1), (width p * x2, ascent p - height p * y2),
     (width p * x1, ascent p - height p * y2)])"
  have pr: "polygonal (contours g @ [?r])"
    using assms(2) by (simp add: polygonal_rounded4)
  have c: "contours (rect ff p g x1 y1 x2 y2) = simplify ff (contours g @ [?r])"
    by (simp add: rect_def rawrect_def)
  have w: "contour_wn ?r (qx, qy) =
      - (seg (design_x p x1) (design_x p x2) qx * seg (design_y p y2) (design_y p y1) qy)"
    by (simp add: rounded_def design_x_def design_y_def rect_wn)
  show ?thesis
    using region_keeping_simplify [OF assms(1) pr, of "(qx, qy)"] w by (simp add: c q)
qed

lemma rectccw_step:
  assumes "region_keeping ff" and "polygonal (contours g)"
  shows "polygonal (contours (rectccw ff p g x1 y1 x2 y2))
    \<and> winding (contours (rectccw ff p g x1 y1 x2 y2)) q =
        winding (contours g) q
        + seg (design_x p x1) (design_x p x2) (fst q) * seg (design_y p y2) (design_y p y1) (snd q)"
proof -
  obtain qx qy where q: "q = (qx, qy)" by (cases q)
  let ?r = "pen_path True (map rounded [(width p * x1, ascent p - height p * y1),
     (width p * x1, ascent p - height p * y2), (width p * x2, ascent p - height p * y2),
     (width p * x2, ascent p - height p * y1)])"
  have pr: "polygonal (contours g @ [?r])"
    using assms(2) by (simp add: polygonal_rounded4)
  have c: "contours (rectccw ff p g x1 y1 x2 y2) = simplify ff (contours g @ [?r])"
    by (simp add: rectccw_def rawrectccw_def)
  have w: "contour_wn ?r (qx, qy) =
      seg (design_x p x1) (design_x p x2) qx * seg (design_y p y2) (design_y p y1) qy"
    by (simp add: rounded_def design_x_def design_y_def rectccw_wn)
  show ?thesis
    using region_keeping_simplify [OF assms(1) pr, of "(qx, qy)"] w by (simp add: c q)
qed

lemma fold_counts:
  assumes "\<And>i g. P g \<Longrightarrow> P (f i g) \<and> m (f i g) = m g + w i"
  shows "P g \<Longrightarrow> P (fold f xs g) \<and> (m (fold f xs g) :: int) = m g + sum_list (map w xs)"
proof (induction xs arbitrary: g)
  case Nil
  then show ?case by simp
next
  case (Cons x xs)
  from assms [OF Cons.prems, of x] Cons.IH [of "f x g"] show ?case by simp
qed

lemma sum_list_range_py: "sum_list (map f (range_py n)) = (\<Sum>i<nat n. f (int i))"
proof -
  have "sum_list (map f (range_py n)) = sum_list (map (\<lambda>i. f (int i)) [0..<nat n])"
    by (simp add: range_py_def comp_def)
  also have "\<dots> = (\<Sum>i\<in>set [0..<nat n]. f (int i))"
    by (rule sum_set_upt_conv_sum_list_nat [symmetric])
  finally show ?thesis by (simp add: lessThan_atLeast0)
qed

text \<open>
  The nested loops of the shade builders add, to the winding number at a point, the sum
  over the selected cells of the winding numbers of their rectangles.
\<close>

lemma grid_fold:
  assumes step: "\<And>x y g. polygonal (contours g) \<Longrightarrow>
      polygonal (contours (draw x y g))
      \<and> winding (contours (draw x y g)) q = winding (contours g) q + t x y"
  assumes g: "polygonal (contours g)"
  shows "polygonal (contours (fold (\<lambda>y g. fold (\<lambda>x g. if sel x y then draw x y g else g)
            (range_py cols) g) (range_py n) g))
    \<and> winding (contours (fold (\<lambda>y g. fold (\<lambda>x g. if sel x y then draw x y g else g)
            (range_py cols) g) (range_py n) g)) q
      = winding (contours g) q
        + (\<Sum>j<nat n. \<Sum>i<nat cols. if sel (int i) (int j) then t (int i) (int j) else 0)"
proof -
  let ?P = "\<lambda>g. polygonal (contours g)"
  let ?m = "\<lambda>g. winding (contours g) q"
  have inner: "?P (fold (\<lambda>x g. if sel x y then draw x y g else g) xs g')
      \<and> ?m (fold (\<lambda>x g. if sel x y then draw x y g else g) xs g')
        = ?m g' + sum_list (map (\<lambda>x. if sel x y then t x y else 0) xs)"
    if "?P g'" for y g' xs
    by (rule fold_counts [where P = ?P and m = ?m, OF _ that]) (simp add: step)
  have outer: "?P (fold (\<lambda>y g. fold (\<lambda>x g. if sel x y then draw x y g else g) (range_py cols) g) ys g)
      \<and> ?m (fold (\<lambda>y g. fold (\<lambda>x g. if sel x y then draw x y g else g) (range_py cols) g) ys g)
        = ?m g + sum_list (map (\<lambda>y. sum_list (map (\<lambda>x. if sel x y then t x y else 0)
                      (range_py cols))) ys)" for ys
    by (rule fold_counts [where P = ?P and m = ?m, OF _ g]) (simp add: inner)
  show ?thesis
    using outer [of "range_py n"] by (simp add: sum_list_range_py)
qed

lemma shade_winding:
  assumes "region_keeping ff" and "polygonal (contours g)"
  shows "polygonal (contours (shade ff p g rows cols inv'))
    \<and> winding (contours (shade ff p g rows cols inv')) q
      = winding (contours g) q
        + (\<Sum>j<nat rows. \<Sum>i<nat cols.
             if ((int i + int j) AND 1) XOR ((rows + cols) AND 1) XOR (if inv' then 0 else 1) \<noteq> 0
             then - cell_term p rows cols (int i) (int j) q else 0)"
  unfolding shade_def
  by (rule grid_fold [OF _ assms(2)])
     (use rect_step [OF assms(1)] in \<open>simp add: cell_term_def\<close>)

lemma seg_nz: "(seg a b t \<noteq> 0) = between a b t"
  by (auto simp: seg_def between_def)

lemma seg_abs: "\<bar>seg a b t\<bar> \<le> 1"
  by (simp add: seg_def)

lemma seg_swap: "seg b a t = - seg a b t"
  by (simp add: seg_def)

lemma seg_telescope: "(\<Sum>i<n. seg (Z i) (Z (Suc i)) t) = seg (Z 0) (Z n) t"
  by (induction n) (simp_all add: seg_def)

lemma seg_nonneg: "a \<le> b \<Longrightarrow> 0 \<le> seg a b t"
  by (simp add: seg_def)

lemma seg_nonpos: "b \<le> a \<Longrightarrow> seg a b t \<le> 0"
  by (simp add: seg_def)

lemma seg_family_sign:
  assumes "(\<forall>i j. i \<le> j \<longrightarrow> Z i \<le> Z j) \<or> (\<forall>i j. i \<le> j \<longrightarrow> Z j \<le> (Z i :: real))"
  shows "(\<forall>i. 0 \<le> seg (Z i) (Z (Suc i)) t) \<or> (\<forall>i. seg (Z i) (Z (Suc i)) t \<le> 0)"
proof -
  from assms have "(\<forall>i. Z i \<le> Z (Suc i)) \<or> (\<forall>i. Z (Suc i) \<le> Z i)"
    by (meson le_SucI order_refl)
  then show ?thesis
    using seg_nonneg seg_nonpos by blast
qed

lemma seg_family_unique:
  assumes "(\<forall>i j. i \<le> j \<longrightarrow> Z i \<le> Z j) \<or> (\<forall>i j. i \<le> j \<longrightarrow> Z j \<le> (Z i :: real))"
    and "seg (Z i0) (Z (Suc i0)) t \<noteq> 0" and "i \<noteq> i0"
  shows "seg (Z i) (Z (Suc i)) t = 0"
proof -
  from assms(3) consider "Suc i \<le> i0" | "Suc i0 \<le> i" by linarith
  then show ?thesis
  proof cases
    case 1
    with assms(1) have "(Z i \<le> Z (Suc i) \<and> Z (Suc i) \<le> Z i0 \<and> Z i0 \<le> Z (Suc i0))
        \<or> (Z (Suc i) \<le> Z i \<and> Z i0 \<le> Z (Suc i) \<and> Z (Suc i0) \<le> Z i0)"
      by (meson le_SucI order_refl)
    with assms(2) show ?thesis by (auto simp: seg_def split: if_splits)
  next
    case 2
    with assms(1) have "(Z i \<le> Z (Suc i) \<and> Z (Suc i0) \<le> Z i \<and> Z i0 \<le> Z (Suc i0))
        \<or> (Z (Suc i) \<le> Z i \<and> Z i \<le> Z (Suc i0) \<and> Z (Suc i0) \<le> Z i0)"
      by (meson le_SucI order_refl)
    with assms(2) show ?thesis by (auto simp: seg_def split: if_splits)
  qed
qed

lemma uniform_sum_nz:
  fixes f :: "'a \<Rightarrow> int"
  assumes "finite I" and "(\<forall>i\<in>I. 0 \<le> f i) \<or> (\<forall>i\<in>I. f i \<le> 0)"
  shows "(sum f I \<noteq> 0) = (\<exists>i\<in>I. f i \<noteq> 0)"
proof -
  from assms(2) show ?thesis
  proof
    assume "\<forall>i\<in>I. 0 \<le> f i"
    then show ?thesis using sum_nonneg_eq_0_iff [OF assms(1), of f] by auto
  next
    assume "\<forall>i\<in>I. f i \<le> 0"
    then have "\<forall>i\<in>I. 0 \<le> - f i" by simp
    then have "(sum (\<lambda>i. - f i) I = 0) = (\<forall>i\<in>I. - f i = 0)"
      using sum_nonneg_eq_0_iff [OF assms(1), of "\<lambda>i. - f i"] by blast
    then show ?thesis by (simp add: sum_negf)
  qed
qed

lemma cell_term_nz: "(cell_term p rows cols x y q \<noteq> 0) = in_cell p rows cols x y q"
  by (simp add: cell_term_def in_cell_def in_rect_def seg_nz)

lemma design_x_monotone:
  "(\<forall>i j. i \<le> j \<longrightarrow> design_x p (real i / c) \<le> design_x p (real j / c))
   \<or> (\<forall>i j. i \<le> j \<longrightarrow> design_x p (real j / c) \<le> design_x p (real i / c))"
proof (cases "0 \<le> width p / c")
  case True
  have "design_x p (real i / c) \<le> design_x p (real j / c)" if "i \<le> j" for i j :: nat
  proof -
    have "width p / c * real i \<le> width p / c * real j"
      using that True by (intro mult_left_mono) simp_all
    then have "py_round (width p * (real i / c)) \<le> py_round (width p * (real j / c))"
      by (intro py_round_mono) (simp add: field_simps)
    then show ?thesis by (simp add: design_x_def)
  qed
  then show ?thesis by blast
next
  case False
  have "design_x p (real j / c) \<le> design_x p (real i / c)" if "i \<le> j" for i j :: nat
  proof -
    have "width p / c * real j \<le> width p / c * real i"
      using that False by (intro mult_left_mono_neg) simp_all
    then have "py_round (width p * (real j / c)) \<le> py_round (width p * (real i / c))"
      by (intro py_round_mono) (simp add: field_simps)
    then show ?thesis by (simp add: design_x_def)
  qed
  then show ?thesis by blast
qed

lemma design_y_monotone:
  "(\<forall>i j. i \<le> j \<longrightarrow> design_y p (real i / r) \<le> design_y p (real j / r))
   \<or> (\<forall>i j. i \<le> j \<longrightarrow> design_y p (real j / r) \<le> design_y p (real i / r))"
proof (cases "0 \<le> height p / r")
  case True
  have "design_y p (real j / r) \<le> design_y p (real i / r)" if "i \<le> j" for i j :: nat
  proof -
    have "height p / r * real i \<le> height p / r * real j"
      using that True by (intro mult_left_mono) simp_all
    then have "py_round (ascent p - height p * (real j / r))
        \<le> py_round (ascent p - height p * (real i / r))"
      by (intro py_round_mono) (simp add: field_simps)
    then show ?thesis by (simp add: design_y_def)
  qed
  then show ?thesis by blast
next
  case False
  have "design_y p (real i / r) \<le> design_y p (real j / r)" if "i \<le> j" for i j :: nat
  proof -
    have "height p / r * real j \<le> height p / r * real i"
      using that False by (intro mult_left_mono_neg) simp_all
    then have "py_round (ascent p - height p * (real i / r))
        \<le> py_round (ascent p - height p * (real j / r))"
      by (intro py_round_mono) (simp add: field_simps)
    then show ?thesis by (simp add: design_y_def)
  qed
  then show ?thesis by blast
qed

lemma cell_term_nat:
  "cell_term p rows cols (int i) (int j) q =
     seg (design_x p (real i / of_int cols)) (design_x p (real (Suc i) / of_int cols)) (fst q)
     * - seg (design_y p (real j / of_int rows)) (design_y p (real (Suc j) / of_int rows)) (snd q)"
  by (simp add: cell_term_def seg_swap [of "design_y p ((1 + real j) / real_of_int rows)"] add.commute)

lemma cell_term_sign:
  "(\<forall>i j. 0 \<le> cell_term p rows cols (int i) (int j) q)
   \<or> (\<forall>i j. cell_term p rows cols (int i) (int j) q \<le> 0)"
proof -
  note sx = seg_family_sign [OF design_x_monotone [of p "of_int cols"], of "fst q"]
  note sy = seg_family_sign [OF design_y_monotone [of p "of_int rows"], of "snd q"]
  from sx sy show ?thesis
    unfolding cell_term_nat
    by (elim disjE) (simp_all add: zero_le_mult_iff mult_le_0_iff)
qed

lemma cell_term_unique:
  assumes "cell_term p rows cols (int i0) (int j0) q \<noteq> 0"
    and "cell_term p rows cols (int i) (int j) q \<noteq> 0"
  shows "i = i0 \<and> j = j0"
proof -
  note ux = seg_family_unique [OF design_x_monotone [of p "of_int cols"], of i0 "fst q" i]
  note uy = seg_family_unique [OF design_y_monotone [of p "of_int rows"], of j0 "snd q" j]
  from assms ux uy show ?thesis
    unfolding cell_term_nat by auto
qed

lemma grid_sum_nz:
  fixes f :: "nat \<Rightarrow> nat \<Rightarrow> int"
  assumes "(\<forall>i j. 0 \<le> f i j) \<or> (\<forall>i j. f i j \<le> 0)"
  shows "((\<Sum>j<R. \<Sum>i<C. f i j) \<noteq> 0) = (\<exists>j<R. \<exists>i<C. f i j \<noteq> 0)"
proof -
  have inner: "((\<Sum>i<C. f i j) \<noteq> 0) = (\<exists>i<C. f i j \<noteq> 0)" for j
    using uniform_sum_nz [of "{..<C}" "\<lambda>i. f i j"] assms by auto
  have "(\<forall>j\<in>{..<R}. 0 \<le> (\<Sum>i<C. f i j)) \<or> (\<forall>j\<in>{..<R}. (\<Sum>i<C. f i j) \<le> 0)"
    using assms by (auto intro: sum_nonneg sum_nonpos)
  then have "((\<Sum>j<R. \<Sum>i<C. f i j) \<noteq> 0) = (\<exists>j\<in>{..<R}. (\<Sum>i<C. f i j) \<noteq> 0)"
    by (intro uniform_sum_nz) simp_all
  then show ?thesis by (simp add: inner Bex_def)
qed

lemma ex_nat_int: "(\<exists>j<nat n. P (int j)) = (\<exists>y. 0 \<le> y \<and> y < n \<and> P y)"
proof
  assume "\<exists>j<nat n. P (int j)"
  then obtain j where "j < nat n" "P (int j)" by blast
  then have "0 \<le> int j \<and> int j < n \<and> P (int j)" by simp
  then show "\<exists>y. 0 \<le> y \<and> y < n \<and> P y" by blast
next
  assume "\<exists>y. 0 \<le> y \<and> y < n \<and> P y"
  then obtain y where "0 \<le> y" "y < n" "P y" by blast
  then have "nat y < nat n \<and> P (int (nat y))" by simp
  then show "\<exists>j<nat n. P (int j)" by blast
qed

lemma grid_filled_iff:
  assumes w: "winding cs q = (\<Sum>j<nat n. \<Sum>i<nat cols.
      if sel (int i) (int j) then - cell_term p rows cols (int i) (r (int j)) q else 0)"
    and r: "\<And>j. r (int j) = int (r' j)"
  shows "filled cs q =
    (\<exists>x y. 0 \<le> x \<and> x < cols \<and> 0 \<le> y \<and> y < n \<and> sel x y \<and> in_cell p rows cols x (r y) q)"
proof -
  let ?f = "\<lambda>i j. if sel (int i) (int j) then - cell_term p rows cols (int i) (r (int j)) q else 0"
  have sign: "(\<forall>i j. 0 \<le> ?f i j) \<or> (\<forall>i j. ?f i j \<le> 0)"
    using cell_term_sign [of p rows cols q] by (auto simp: r)
  have "filled cs q = (\<exists>j<nat n. \<exists>i<nat cols. ?f i j \<noteq> 0)"
    unfolding filled_def w by (rule grid_sum_nz [OF sign])
  also have "\<dots> = (\<exists>j<nat n. \<exists>i<nat cols. sel (int i) (int j)
      \<and> in_cell p rows cols (int i) (r (int j)) q)"
    by (auto simp: cell_term_nz)
  also have "\<dots> = (\<exists>y. 0 \<le> y \<and> y < n \<and> (\<exists>x. 0 \<le> x \<and> x < cols \<and> sel x y
      \<and> in_cell p rows cols x (r y) q))"
    by (simp add: ex_nat_int [where P = "\<lambda>x. sel x _ \<and> in_cell p rows cols x _ q"]
         ex_nat_int [where P = "\<lambda>y. \<exists>x. 0 \<le> x \<and> x < cols \<and> sel x y \<and> in_cell p rows cols x (r y) q"])
  finally show ?thesis by blast
qed

lemma shade_filled_iff:
  assumes "region_keeping ff"
  shows "filled (contours (shade ff p (fresh_glyph p) rows cols inv')) q =
    (\<exists>x y. 0 \<le> x \<and> x < cols \<and> 0 \<le> y \<and> y < rows
       \<and> ((x + y) AND 1) XOR ((rows + cols) AND 1) XOR (if inv' then 0 else 1) \<noteq> 0
       \<and> in_cell p rows cols x y q)"
proof -
  have "polygonal (contours (fresh_glyph p))" by (simp add: fresh_glyph_def)
  from shade_winding [OF assms this, of p rows cols inv' q]
  have w: "winding (contours (shade ff p (fresh_glyph p) rows cols inv')) q =
      (\<Sum>j<nat rows. \<Sum>i<nat cols.
         if ((int i + int j) AND 1) XOR ((rows + cols) AND 1) XOR (if inv' then 0 else 1) \<noteq> 0
         then - cell_term p rows cols (int i) (int j) q else 0)"
    by (simp add: fresh_glyph_def winding_def)
  show ?thesis
    by (rule grid_filled_iff [where r = "\<lambda>y. y" and r' = "\<lambda>j. j", OF w]) simp
qed

lemma cells_disjoint:
  assumes "in_cell p rows cols x y q" and "in_cell p rows cols x' y' q"
    and "0 \<le> x" "0 \<le> y" "0 \<le> x'" "0 \<le> y'"
  shows "x = x' \<and> y = y'"
proof -
  have "cell_term p rows cols (int (nat x)) (int (nat y)) q \<noteq> 0"
    and "cell_term p rows cols (int (nat x')) (int (nat y')) q \<noteq> 0"
    using assms by (simp_all add: cell_term_nz)
  from cell_term_unique [OF this] assms(3-6) show ?thesis by (metis nat_0_le)
qed

lemma region_keeping_plain: "region_keeping plain_engine"
  by (simp add: region_keeping_def plain_engine_def)

lemma default_metrics:
  "width (SLCParameters_init no_kwargs) = 1000"
  "height (SLCParameters_init no_kwargs) = 1000"
  "ascent (SLCParameters_init no_kwargs) = 800"
  "descent (SLCParameters_init no_kwargs) = 200"
  by (simp_all add: SLCParameters_init_def no_kwargs_def Let_def)

lemma range_py_2: "range_py 2 = [0, 1]"
  by (simp add: range_py_def numeral_2_eq_2)

lemma ex_grid_2x2:
  "(\<exists>x y. 0 \<le> x \<and> x < (2::int) \<and> 0 \<le> y \<and> y < (2::int) \<and> Q x y) =
     (Q 0 0 \<or> Q 0 1 \<or> Q 1 0 \<or> Q 1 1)"
proof
  assume "\<exists>x y. 0 \<le> x \<and> x < (2::int) \<and> 0 \<le> y \<and> y < (2::int) \<and> Q x y"
  then obtain x y :: int where h: "0 \<le> x" "x < 2" "0 \<le> y" "y < 2" and q: "Q x y"
    by blast
  from h have "x = 0 \<or> x = 1" and "y = 0 \<or> y = 1" by linarith+
  with q show "Q 0 0 \<or> Q 0 1 \<or> Q 1 0 \<or> Q 1 1" by blast
next
  have e: "Q a b \<Longrightarrow> 0 \<le> a \<Longrightarrow> a < 2 \<Longrightarrow> 0 \<le> b \<Longrightarrow> b < 2 \<Longrightarrow>
      \<exists>x y. 0 \<le> x \<and> x < (2::int) \<and> 0 \<le> y \<and> y < (2::int) \<and> Q x y" for a b
    by blast
  assume "Q 0 0 \<or> Q 0 1 \<or> Q 1 0 \<or> Q 1 1"
  then show "\<exists>x y. 0 \<le> x \<and> x < (2::int) \<and> 0 \<le> y \<and> y < (2::int) \<and> Q x y"
    by (elim disjE) (erule e; simp)+
qed

lemma witness_point:
  "in_cell (SLCParameters_init no_kwargs) 2 2 0 0 (250, 550)"
  by (simp add: default_metrics py_round_def Let_def in_cell_def in_rect_def between_def
        design_x_def design_y_def)

section \<open>The medium shade\<close>

text \<open>
  C1, as stated, fails. With the default parameters (ascent 800, width 1000) the point
  (250, 550) lies in cell (0, 0) of the 2 by 2 grid, the top-left cell, and in neither
  cell (0, 1) nor cell (1, 0); \<^verbatim>\<open>shade(2, 2, False)\<close> fills it.
\<close>

theorem C1_counterexample:
  "filled (contours (shade plain_engine (SLCParameters_init no_kwargs)
       (fresh_glyph (SLCParameters_init no_kwargs)) 2 2 False)) (250, 550)
   \<and> in_cell (SLCParameters_init no_kwargs) 2 2 0 0 (250, 550)
   \<and> \<not> in_cell (SLCParameters_init no_kwargs) 2 2 0 1 (250, 550)
   \<and> \<not> in_cell (SLCParameters_init no_kwargs) 2 2 1 0 (250, 550)"
  by (simp add: shade_def range_py_2 rect_def rawrect_def plain_engine_def fresh_glyph_def
        default_metrics filled_def winding_def contour_wn_def pen_path_def rounded_def
        py_round_def edge_wn_def isLeft_def Let_def in_cell_def in_rect_def between_def
        design_x_def design_y_def)

text \<open>
  C1, amended: the two patterns are the other way round. For a 2 by 2 grid
  \<^verbatim>\<open>shade(2, 2, False)\<close> fills exactly the cells (0, 0) and (1, 1), and
  \<^verbatim>\<open>shade(2, 2, True)\<close> fills exactly the cells (0, 1) and (1, 0); cells are
  (column, row) and (0, 0) is the top-left one.
\<close>

theorem C1_shade_2x2:
  assumes "region_keeping ff"
  shows "(\<forall>q. filled (contours (shade ff p (fresh_glyph p) 2 2 False)) q =
            (in_cell p 2 2 0 0 q \<or> in_cell p 2 2 1 1 q))
    \<and> (\<forall>q. in_cell p 2 2 0 1 q \<or> in_cell p 2 2 1 0 q \<longrightarrow>
            \<not> filled (contours (shade ff p (fresh_glyph p) 2 2 False)) q)
    \<and> (\<forall>q. filled (contours (shade ff p (fresh_glyph p) 2 2 True)) q =
            (in_cell p 2 2 0 1 q \<or> in_cell p 2 2 1 0 q))
    \<and> (\<forall>q. in_cell p 2 2 0 0 q \<or> in_cell p 2 2 1 1 q \<longrightarrow>
            \<not> filled (contours (shade ff p (fresh_glyph p) 2 2 True)) q)"
proof -
  have f: "filled (contours (shade ff p (fresh_glyph p) 2 2 False)) q =
      (in_cell p 2 2 0 0 q \<or> in_cell p 2 2 1 1 q)" for q
    unfolding shade_filled_iff [OF assms] ex_grid_2x2 by simp
  have t: "filled (contours (shade ff p (fresh_glyph p) 2 2 True)) q =
      (in_cell p 2 2 0 1 q \<or> in_cell p 2 2 1 0 q)" for q
    unfolding shade_filled_iff [OF assms] ex_grid_2x2 by simp
  have d: "\<not> (in_cell p 2 2 x y q \<and> in_cell p 2 2 x' y' q)"
    if "(x, y) \<noteq> (x', y')" "0 \<le> x" "0 \<le> y" "0 \<le> x'" "0 \<le> y'" for x y x' y' q
    using cells_disjoint [of p 2 2 x y q x' y'] that by auto
  show ?thesis
    unfolding f t using d [of 0 0 0 1] d [of 0 0 1 0] d [of 1 1 0 1] d [of 1 1 1 0]
    by auto
qed

theorem C1_shade_2x2_witness:
  "region_keeping plain_engine
   \<and> in_cell (SLCParameters_init no_kwargs) 2 2 0 0 (250, 550)
   \<and> filled (contours (shade plain_engine (SLCParameters_init no_kwargs)
        (fresh_glyph (SLCParameters_init no_kwargs)) 2 2 False)) (250, 550)
   \<and> \<not> filled (contours (shade plain_engine (SLCParameters_init no_kwargs)
        (fresh_glyph (SLCParameters_init no_kwargs)) 2 2 True)) (250, 550)"
  using C1_shade_2x2 [OF region_keeping_plain, of "SLCParameters_init no_kwargs"]
    region_keeping_plain witness_point
  by blast

text \<open>
  C3. For every grid, \<^verbatim>\<open>shade(rows, cols, inverse)\<close> fills the cell in column \<open>x\<close>
  and row \<open>y\<close> if and only if
  \<^verbatim>\<open>((x+y)&1) ^ ((rows+cols)&1) ^ (0 if inverse else 1)\<close> is not zero, and the filled
  region is the union of exactly those cells.
\<close>

theorem C3_shade_parity:
  assumes "region_keeping ff"
  shows "(\<forall>x y q. 0 \<le> x \<and> x < cols \<and> 0 \<le> y \<and> y < rows \<and> in_cell p rows cols x y q \<longrightarrow>
            filled (contours (shade ff p (fresh_glyph p) rows cols inv')) q =
              (((x + y) AND 1) XOR ((rows + cols) AND 1) XOR (if inv' then 0 else 1) \<noteq> 0))
    \<and> (\<forall>q. filled (contours (shade ff p (fresh_glyph p) rows cols inv')) q =
            (\<exists>x y. 0 \<le> x \<and> x < cols \<and> 0 \<le> y \<and> y < rows
               \<and> ((x + y) AND 1) XOR ((rows + cols) AND 1) XOR (if inv' then 0 else 1) \<noteq> 0
               \<and> in_cell p rows cols x y q))"
proof (intro conjI allI impI)
  fix q
  show "filled (contours (shade ff p (fresh_glyph p) rows cols inv')) q =
      (\<exists>x y. 0 \<le> x \<and> x < cols \<and> 0 \<le> y \<and> y < rows
         \<and> ((x + y) AND 1) XOR ((rows + cols) AND 1) XOR (if inv' then 0 else 1) \<noteq> 0
         \<and> in_cell p rows cols x y q)"
    by (rule shade_filled_iff [OF assms])
next
  fix x y q
  assume c: "0 \<le> x \<and> x < cols \<and> 0 \<le> y \<and> y < rows \<and> in_cell p rows cols x y q"
  have only: "x' = x \<and> y' = y"
    if "0 \<le> x'" "0 \<le> y'" "in_cell p rows cols x' y' q" for x' y'
    using cells_disjoint [of p rows cols x' y' q x y] that c by simp
  show "filled (contours (shade ff p (fresh_glyph p) rows cols inv')) q =
      (((x + y) AND 1) XOR ((rows + cols) AND 1) XOR (if inv' then 0 else 1) \<noteq> 0)"
    unfolding shade_filled_iff [OF assms] using c only by blast
qed

theorem C3_shade_parity_witness:
  "region_keeping plain_engine
   \<and> (0::int) \<le> 0 \<and> (0::int) < 2
   \<and> in_cell (SLCParameters_init no_kwargs) 2 2 0 0 (250, 550)
   \<and> filled (contours (shade plain_engine (SLCParameters_init no_kwargs)
        (fresh_glyph (SLCParameters_init no_kwargs)) 2 2 False)) (250, 550) =
       ((((0::int) + 0) AND 1) XOR (((2::int) + 2) AND 1) XOR (if False then 0 else 1) \<noteq> 0)"
proof -
  from C3_shade_parity [OF region_keeping_plain, of 2 2 "SLCParameters_init no_kwargs" False]
  have "\<forall>x y q. 0 \<le> x \<and> x < 2 \<and> 0 \<le> y \<and> y < 2
        \<and> in_cell (SLCParameters_init no_kwargs) 2 2 x y q \<longrightarrow>
      filled (contours (shade plain_engine (SLCParameters_init no_kwargs)
        (fresh_glyph (SLCParameters_init no_kwargs)) 2 2 False)) q =
      (((x + y) AND 1) XOR (((2::int) + 2) AND 1) XOR (if False then 0 else 1) \<noteq> 0)"
    by (rule conjunct1)
  from this [rule_format, of 0 0 "(250, 550)"] witness_point region_keeping_plain
  show ?thesis by simp
qed

section \<open>The light and the dark shade\<close>

text \<open>
  \<^verbatim>\<open>ltshade\<close> draws the selected cells of every other row; \<^verbatim>\<open>dkshade\<close> draws the
  same cells the other way round, then the whole unit square, and merges the outline.
\<close>

lemma ltshade_winding:
  assumes "region_keeping ff" and "polygonal (contours g)"
  shows "polygonal (contours (ltshade ff p g rows cols))
    \<and> winding (contours (ltshade ff p g rows cols)) q
      = winding (contours g) q
        + (\<Sum>j<nat (rows div 2). \<Sum>i<nat cols.
             if (int i + int j) AND 1 = (rows + cols) AND 1
             then - cell_term p rows cols (int i) (int j * 2) q else 0)"
  unfolding ltshade_def
  by (rule grid_fold [OF _ assms(2)])
     (use rect_step [OF assms(1)] in \<open>simp add: cell_term_def\<close>)

lemma dkshade_loop_winding:
  assumes "region_keeping ff" and "polygonal (contours g)"
  shows "polygonal (contours (fold (\<lambda>y g. fold (\<lambda>x g.
            if (x + y) AND 1 = (rows + cols) AND 1
            then rectccw ff p g (of_int x / of_int cols) (of_int (y * 2) / of_int rows)
                                (of_int (x + 1) / of_int cols) (of_int (y * 2 + 1) / of_int rows)
            else g) (range_py cols) g) (range_py (rows div 2)) g))
    \<and> winding (contours (fold (\<lambda>y g. fold (\<lambda>x g.
            if (x + y) AND 1 = (rows + cols) AND 1
            then rectccw ff p g (of_int x / of_int cols) (of_int (y * 2) / of_int rows)
                                (of_int (x + 1) / of_int cols) (of_int (y * 2 + 1) / of_int rows)
            else g) (range_py cols) g) (range_py (rows div 2)) g)) q
      = winding (contours g) q
        + (\<Sum>j<nat (rows div 2). \<Sum>i<nat cols.
             if (int i + int j) AND 1 = (rows + cols) AND 1
             then cell_term p rows cols (int i) (int j * 2) q else 0)"
  by (rule grid_fold [OF _ assms(2)])
     (use rectccw_step [OF assms(1)] in \<open>simp add: cell_term_def\<close>)

lemma contour_wn_coords:
  "map (\<lambda>v. (px v, py v)) (cpoints c) = map (\<lambda>v. (px v, py v)) (cpoints d)
     \<Longrightarrow> contour_wn c q = contour_wn d q"
  by (simp add: contour_wn_def)

lemma redraw_wn:
  assumes "polygonal [c]"
  shows "contour_wn (pen_path True (map rounded
            (map (\<lambda>v. (px v, py v)) (filter on_curve (cpoints c))))) q = contour_wn c q"
proof -
  have all: "\<forall>v\<in>set (cpoints c). on_curve v \<and> of_int \<lfloor>px v\<rfloor> = px v \<and> of_int \<lfloor>py v\<rfloor> = py v"
    using assms by (simp add: polygonal_def list_all_iff)
  then have f: "filter on_curve (cpoints c) = cpoints c"
    by (simp add: filter_id_conv)
  have r: "rounded (px v, py v) = (px v, py v)" if "v \<in> set (cpoints c)" for v
  proof -
    from all that have "of_int \<lfloor>px v\<rfloor> = px v" "of_int \<lfloor>py v\<rfloor> = py v" by blast+
    then obtain a b where "px v = of_int a" "py v = of_int b" by metis
    then show ?thesis by (simp add: rounded_def)
  qed
  show ?thesis
    by (rule contour_wn_coords) (simp add: f pen_path_def comp_def r cong: map_cong)
qed

text \<open>
  \<^verbatim>\<open>_stripcontrolpoints\<close> on a polygonal outline draws every contour again as it
  is: it succeeds and keeps the winding numbers.
\<close>

lemma polygonal_Cons: "polygonal (c # cs) = (polygonal [c] \<and> polygonal cs)"
  by (simp add: polygonal_def)

lemma rawpolys_redraw:
  assumes rk: "region_keeping ff"
  shows "polygonal cs \<Longrightarrow> polygonal (contours g) \<Longrightarrow>
    \<exists>g'. rawpolys ff g (map (\<lambda>c. map (\<lambda>v. (px v, py v)) (filter on_curve (cpoints c))) cs) = Inr g'
      \<and> polygonal (contours g') \<and> gwidth g' = gwidth g
      \<and> (\<forall>q. winding (contours g') q = winding (contours g) q + winding cs q)"
proof (induction cs arbitrary: g)
  case Nil
  then show ?case by (simp add: winding_def)
next
  case (Cons c cs)
  let ?pts = "map (\<lambda>v. (px v, py v)) (filter on_curve (cpoints c))"
  let ?g1 = "g\<lparr>contours := simplify ff (contours g @ [pen_path True (map rounded ?pts)])\<rparr>"
  from Cons.prems(1) have pc: "polygonal [c]" and pcs: "polygonal cs"
    using polygonal_Cons by blast+
  from pc have ne: "?pts \<noteq> []"
    by (auto simp: polygonal_def list_all_iff filter_empty_conv)
  then obtain a as where pts: "?pts = a # as" by (cases ?pts) auto
  have step: "rawpoly ff g ?pts = Inr ?g1"
    by (simp add: rawpoly_def pts)
  have pp: "polygonal (contours g @ [pen_path True (map rounded ?pts)])"
    using Cons.prems(2) polygonal_rounded_path [OF ne, of True] by simp
  have p1: "polygonal (contours ?g1)"
    and w1: "winding (contours ?g1) q = winding (contours g) q + contour_wn c q" for q
    using region_keeping_simplify [OF rk pp, of q] redraw_wn [OF pc, of q] by simp_all
  from Cons.IH [OF pcs p1] obtain g' where
    g': "rawpolys ff ?g1 (map (\<lambda>c. map (\<lambda>v. (px v, py v)) (filter on_curve (cpoints c))) cs) = Inr g'"
      "polygonal (contours g')" "gwidth g' = gwidth ?g1"
      "\<forall>q. winding (contours g') q = winding (contours ?g1) q + winding cs q"
    by blast
  have "rawpolys ff g (map (\<lambda>c. map (\<lambda>v. (px v, py v)) (filter on_curve (cpoints c))) (c # cs))
      = Inr g'"
    using step g'(1) by simp
  moreover have "\<forall>q. winding (contours g') q = winding (contours g) q + winding (c # cs) q"
    using g'(4) w1 by (simp add: winding_def)
  ultimately show ?case using g'(2,3) by auto
qed

lemma stripcontrolpoints_keeps:
  assumes "region_keeping ff" and "polygonal (contours g)"
  shows "\<exists>g'. stripcontrolpoints ff p g = Inr g' \<and> polygonal (contours g')
      \<and> gwidth g' = width p \<and> (\<forall>q. winding (contours g') q = winding (contours g) q)"
  using rawpolys_redraw [OF assms(1) assms(2), of "g\<lparr>contours := [], gwidth := width p\<rparr>"]
  by (simp add: stripcontrolpoints_def Let_def winding_def)

text \<open>
  At a point of a cell the winding number of the cell's rectangle is that of the
  rectangle of the whole unit square, and the sum over the light cells is either zero or
  the term of the one light cell that holds the point.
\<close>

lemma seg_family_collapse:
  assumes mono: "(\<forall>i j. i \<le> j \<longrightarrow> Z i \<le> Z j) \<or> (\<forall>i j. i \<le> j \<longrightarrow> Z j \<le> (Z i :: real))"
    and "i0 < n" and nz: "seg (Z i0) (Z (Suc i0)) t \<noteq> 0"
  shows "seg (Z 0) (Z n) t = seg (Z i0) (Z (Suc i0)) t"
proof -
  have "seg (Z 0) (Z n) t = (\<Sum>i<n. seg (Z i) (Z (Suc i)) t)"
    by (simp add: seg_telescope)
  also have "\<dots> = (\<Sum>i<n. if i = i0 then seg (Z i0) (Z (Suc i0)) t else 0)"
    by (rule sum.cong) (use seg_family_unique [OF mono nz] in auto)
  also have "\<dots> = seg (Z i0) (Z (Suc i0)) t"
    using assms(2) by simp
  finally show ?thesis .
qed

lemma cell_term_full:
  assumes "i0 < nat cols" and "k0 < nat rows"
    and nz: "cell_term p rows cols (int i0) (int k0) q \<noteq> 0"
  shows "cell_term p rows cols (int i0) (int k0) q =
    seg (design_x p 0) (design_x p 1) (fst q) * seg (design_y p 1) (design_y p 0) (snd q)"
proof -
  from nz have nx: "seg (design_x p (real i0 / of_int cols))
        (design_x p (real (Suc i0) / of_int cols)) (fst q) \<noteq> 0"
    and ny: "seg (design_y p (real k0 / of_int rows))
        (design_y p (real (Suc k0) / of_int rows)) (snd q) \<noteq> 0"
    unfolding cell_term_nat by auto
  have c1: "real (nat cols) / real_of_int cols = 1" and r1: "real (nat rows) / real_of_int rows = 1"
    using assms(1,2) by simp_all
  from seg_family_collapse [OF design_x_monotone assms(1) nx]
  have x: "seg (design_x p (real i0 / of_int cols))
        (design_x p (real (Suc i0) / of_int cols)) (fst q)
      = seg (design_x p 0) (design_x p 1) (fst q)"
    by (simp add: c1)
  from seg_family_collapse [OF design_y_monotone assms(2) ny]
  have y: "seg (design_y p (real k0 / of_int rows))
        (design_y p (real (Suc k0) / of_int rows)) (snd q)
      = seg (design_y p 0) (design_y p 1) (snd q)"
    by (simp add: r1)
  show ?thesis
    unfolding cell_term_nat x y by (simp add: seg_swap [of "design_y p 1"])
qed

lemma sum2_delta:
  fixes f :: "nat \<Rightarrow> nat \<Rightarrow> int"
  assumes "i0 < C" and "j0 < R" and z: "\<And>i j. (i, j) \<noteq> (i0, j0) \<Longrightarrow> f i j = 0"
  shows "(\<Sum>j<R. \<Sum>i<C. f i j) = f i0 j0"
proof -
  have inner: "(\<Sum>i<C. f i j) = (if j = j0 then f i0 j0 else 0)" for j
  proof (cases "j = j0")
    case True
    have "(\<Sum>i<C. f i j0) = (\<Sum>i<C. if i = i0 then f i0 j0 else 0)"
      by (rule sum.cong) (use z in auto)
    then show ?thesis using True assms(1) by simp
  next
    case False
    then show ?thesis using z by simp
  qed
  show ?thesis
    unfolding inner using assms(2) by simp
qed

lemma light_sum_cases:
  fixes sel :: "int \<Rightarrow> int \<Rightarrow> bool"
  defines "L \<equiv> \<lambda>p rows cols q. (\<Sum>j<nat (rows div 2). \<Sum>i<nat cols.
             if sel (int i) (int j) then cell_term p rows cols (int i) (int j * 2) q else 0)"
  shows "L p rows cols q = 0
    \<or> (L p rows cols q \<noteq> 0 \<and> L p rows cols q =
        seg (design_x p 0) (design_x p 1) (fst q) * seg (design_y p 1) (design_y p 0) (snd q))"
proof (cases "L p rows cols q = 0")
  case True
  then show ?thesis by simp
next
  case False
  let ?f = "\<lambda>i j. if sel (int i) (int j) then cell_term p rows cols (int i) (int j * 2) q else 0"
  have Lf: "L p rows cols q = (\<Sum>j<nat (rows div 2). \<Sum>i<nat cols. ?f i j)"
    by (simp add: L_def)
  have i2: "int j * 2 = int (j * 2)" for j
    by simp
  from cell_term_sign [of p rows cols q]
  have "(\<forall>i j. 0 \<le> cell_term p rows cols (int i) (int (j * 2)) q)
      \<or> (\<forall>i j. cell_term p rows cols (int i) (int (j * 2)) q \<le> 0)"
    by blast
  then have sign: "(\<forall>i j. 0 \<le> ?f i j) \<or> (\<forall>i j. ?f i j \<le> 0)"
    by auto
  from False obtain j0 i0 where j0: "j0 < nat (rows div 2)" and i0: "i0 < nat cols"
    and nz: "?f i0 j0 \<noteq> 0"
    unfolding Lf grid_sum_nz [OF sign] by blast
  then have s0: "sel (int i0) (int j0)"
    and c0: "cell_term p rows cols (int i0) (int (j0 * 2)) q \<noteq> 0"
    unfolding i2 by (auto split: if_splits)
  have zero: "?f i j = 0" if "(i, j) \<noteq> (i0, j0)" for i j
    unfolding i2 using cell_term_unique [OF c0, of i "j * 2"] that by auto
  have k0: "j0 * 2 < nat rows" using j0 by linarith
  have "L p rows cols q = ?f i0 j0"
    unfolding Lf by (rule sum2_delta [OF i0 j0 zero])
  also have "\<dots> = cell_term p rows cols (int i0) (int (j0 * 2)) q"
    using s0 by simp
  also have "\<dots> = seg (design_x p 0) (design_x p 1) (fst q)
      * seg (design_y p 1) (design_y p 0) (snd q)"
    by (rule cell_term_full [OF i0 k0 c0])
  finally show ?thesis using False by simp
qed

lemma full_term_nz:
  "(seg (design_x p 0) (design_x p 1) (fst q) * seg (design_y p 1) (design_y p 0) (snd q) \<noteq> 0)
     = in_rect p 0 0 1 1 q"
  by (simp add: in_rect_def seg_nz)

lemma unit_square_grid:
  assumes "0 < rows" and "0 < cols"
  shows "in_rect p 0 0 1 1 q =
    (\<exists>x y. 0 \<le> x \<and> x < cols \<and> 0 \<le> y \<and> y < rows \<and> in_cell p rows cols x y q)"
proof
  assume "\<exists>x y. 0 \<le> x \<and> x < cols \<and> 0 \<le> y \<and> y < rows \<and> in_cell p rows cols x y q"
  then obtain x y where h: "0 \<le> x" "x < cols" "0 \<le> y" "y < rows" "in_cell p rows cols x y q"
    by blast
  then have nz: "cell_term p rows cols (int (nat x)) (int (nat y)) q \<noteq> 0"
    by (simp add: cell_term_nz)
  from h have "nat x < nat cols" "nat y < nat rows" by simp_all
  from cell_term_full [OF this nz] nz show "in_rect p 0 0 1 1 q"
    by (simp add: full_term_nz [symmetric])
next
  assume full: "in_rect p 0 0 1 1 q"
  let ?dx = "\<lambda>i. seg (design_x p (real i / of_int cols))
      (design_x p (real (Suc i) / of_int cols)) (fst q)"
  let ?dy = "\<lambda>j. seg (design_y p (real j / of_int rows))
      (design_y p (real (Suc j) / of_int rows)) (snd q)"
  have c1: "real (nat cols) / real_of_int cols = 1" and r1: "real (nat rows) / real_of_int rows = 1"
    using assms by simp_all
  have sx: "(\<Sum>i<nat cols. ?dx i) = seg (design_x p 0) (design_x p 1) (fst q)"
    using seg_telescope [of "\<lambda>i. design_x p (real i / of_int cols)" "fst q" "nat cols"]
    by (simp add: c1)
  have sy: "(\<Sum>j<nat rows. ?dy j) = seg (design_y p 0) (design_y p 1) (snd q)"
    using seg_telescope [of "\<lambda>j. design_y p (real j / of_int rows)" "snd q" "nat rows"]
    by (simp add: r1)
  have "(\<Sum>i<nat cols. \<Sum>j<nat rows. cell_term p rows cols (int i) (int j) q)
      = (\<Sum>i<nat cols. ?dx i) * (\<Sum>j<nat rows. - ?dy j)"
    unfolding cell_term_nat by (simp only: sum_product)
  also have "\<dots> = seg (design_x p 0) (design_x p 1) (fst q)
      * seg (design_y p 1) (design_y p 0) (snd q)"
    unfolding sum_negf sx sy by (simp add: seg_swap [of "design_y p 1"])
  finally have eq: "(\<Sum>i<nat cols. \<Sum>j<nat rows. cell_term p rows cols (int i) (int j) q)
      = seg (design_x p 0) (design_x p 1) (fst q) * seg (design_y p 1) (design_y p 0) (snd q)" .
  have "seg (design_x p 0) (design_x p 1) (fst q) * seg (design_y p 1) (design_y p 0) (snd q) \<noteq> 0"
    using full by (simp only: full_term_nz)
  with eq have "(\<Sum>i<nat cols. \<Sum>j<nat rows. cell_term p rows cols (int i) (int j) q) \<noteq> 0"
    by simp
  then obtain i where i: "i < nat cols"
    and "(\<Sum>j<nat rows. cell_term p rows cols (int i) (int j) q) \<noteq> 0"
    by (metis (no_types, lifting) lessThan_iff sum.neutral)
  then obtain j where j: "j < nat rows" and "cell_term p rows cols (int i) (int j) q \<noteq> 0"
    by (metis (no_types, lifting) lessThan_iff sum.neutral)
  then have "in_cell p rows cols (int i) (int j) q"
    by (simp add: cell_term_nz)
  moreover have "int i < cols" and "int j < rows"
    using i j by linarith+
  then have "0 \<le> int i \<and> int i < cols \<and> 0 \<le> int j \<and> int j < rows"
    by simp
  ultimately show "\<exists>x y. 0 \<le> x \<and> x < cols \<and> 0 \<le> y \<and> y < rows \<and> in_cell p rows cols x y q"
    by blast
qed

lemma ltshade_filled_iff:
  assumes "region_keeping ff"
  shows "filled (contours (ltshade ff p (fresh_glyph p) rows cols)) q =
    (\<exists>x y. 0 \<le> x \<and> x < cols \<and> 0 \<le> y \<and> y < rows div 2
       \<and> (x + y) AND 1 = (rows + cols) AND 1 \<and> in_cell p rows cols x (y * 2) q)"
proof -
  have "polygonal (contours (fresh_glyph p))" by (simp add: fresh_glyph_def)
  from ltshade_winding [OF assms this, of p rows cols q]
  have w: "winding (contours (ltshade ff p (fresh_glyph p) rows cols)) q =
      (\<Sum>j<nat (rows div 2). \<Sum>i<nat cols.
         if (int i + int j) AND 1 = (rows + cols) AND 1
         then - cell_term p rows cols (int i) (int j * 2) q else 0)"
    by (simp add: fresh_glyph_def winding_def)
  show ?thesis
    by (rule grid_filled_iff [where r = "\<lambda>y. y * 2" and r' = "\<lambda>j. j * 2", OF w]) simp
qed

lemma dkshade_filled:
  assumes rk: "region_keeping ff"
  shows "\<exists>gd. dkshade ff p (fresh_glyph p) rows cols = Inr gd
    \<and> (\<forall>q. filled (contours gd) q =
          (in_rect p 0 0 1 1 q \<and> \<not> filled (contours (ltshade ff p (fresh_glyph p) rows cols)) q))
    \<and> (\<forall>q. filled (contours (ltshade ff p (fresh_glyph p) rows cols)) q \<longrightarrow> in_rect p 0 0 1 1 q)"
proof -
  let ?L = "\<lambda>q. (\<Sum>j<nat (rows div 2). \<Sum>i<nat cols.
      if (int i + int j) AND 1 = (rows + cols) AND 1
      then cell_term p rows cols (int i) (int j * 2) q else 0)"
  let ?F = "\<lambda>q. seg (design_x p 0) (design_x p 1) (fst q)
      * seg (design_y p 1) (design_y p 0) (snd q)"
  let ?g1 = "fold (\<lambda>y g. fold (\<lambda>x g.
            if (x + y) AND 1 = (rows + cols) AND 1
            then rectccw ff p g (of_int x / of_int cols) (of_int (y * 2) / of_int rows)
                                (of_int (x + 1) / of_int cols) (of_int (y * 2 + 1) / of_int rows)
            else g) (range_py cols) g) (range_py (rows div 2)) (fresh_glyph p)"
  let ?g2 = "rect ff p ?g1 0 0 1 1"
  let ?g3 = "?g2\<lparr>contours := removeOverlap ff (contours ?g2)\<rparr>"
  let ?g4 = "?g3\<lparr>contours := simplify ff (contours ?g3)\<rparr>"
  have p0: "polygonal (contours (fresh_glyph p))" by (simp add: fresh_glyph_def)
  have p1: "polygonal (contours ?g1)" and w1: "winding (contours ?g1) q = ?L q" for q
    using dkshade_loop_winding [OF rk p0, of rows cols p q]
    by (simp_all add: fresh_glyph_def winding_def)
  have p2: "polygonal (contours ?g2)" and w2: "winding (contours ?g2) q = ?L q - ?F q" for q
    using rect_step [OF rk p1, of p 0 0 1 1 q] w1 [of q] by simp_all
  have p3: "polygonal (contours ?g3)"
    and f3: "filled (contours ?g3) q = filled (contours ?g2) q" for q
    using region_keeping_removeOverlap [OF rk p2, of q] by simp_all
  have p4: "polygonal (contours ?g4)"
    and w4: "winding (contours ?g4) q = winding (contours ?g3) q" for q
    using region_keeping_simplify [OF rk p3, of q] by simp_all
  from stripcontrolpoints_keeps [OF rk p4, of p] obtain gd where
    gd: "stripcontrolpoints ff p ?g4 = Inr gd"
      and wd: "\<forall>q. winding (contours gd) q = winding (contours ?g4) q"
    by blast
  have dk: "dkshade ff p (fresh_glyph p) rows cols = Inr gd"
    using gd by (simp add: dkshade_def Let_def)
  have fd: "filled (contours gd) q = (?L q \<noteq> ?F q)" for q
  proof -
    have "winding (contours gd) q = winding (contours ?g4) q"
      using wd by blast
    then have "filled (contours gd) q = filled (contours ?g4) q"
      by (simp only: filled_def)
    also have "\<dots> = filled (contours ?g3) q"
      using w4 [of q] by (simp add: filled_def)
    also have "\<dots> = (?L q \<noteq> ?F q)"
      unfolding f3 using w2 [of q] by (simp add: filled_def)
    finally show ?thesis .
  qed
  have fl: "filled (contours (ltshade ff p (fresh_glyph p) rows cols)) q = (?L q \<noteq> 0)" for q
  proof -
    have "winding (contours (ltshade ff p (fresh_glyph p) rows cols)) q = - ?L q"
      using ltshade_winding [OF rk p0, of p rows cols q]
      by (simp add: fresh_glyph_def winding_def sum_negf [symmetric] if_distrib [of uminus]
            cong: if_cong)
    then show ?thesis by (simp add: filled_def)
  qed
  have cases: "?L q = 0 \<or> (?L q \<noteq> 0 \<and> ?L q = ?F q)" for q
    by (rule light_sum_cases)
  have a: "filled (contours gd) q =
      (in_rect p 0 0 1 1 q \<and> \<not> filled (contours (ltshade ff p (fresh_glyph p) rows cols)) q)" for q
    unfolding fd fl full_term_nz [symmetric] using cases [of q] by auto
  have b: "filled (contours (ltshade ff p (fresh_glyph p) rows cols)) q \<longrightarrow> in_rect p 0 0 1 1 q"
    for q
    unfolding fl full_term_nz [symmetric] using cases [of q] by auto
  from dk a b show ?thesis by blast
qed

text \<open>
  C6. For every number of rows (even ones in particular) and of columns, the region
  filled by \<^verbatim>\<open>dkshade(r, c)\<close> is the unit square without the cells that
  \<^verbatim>\<open>ltshade(r, c)\<close> selects: the two regions together are the unit square, which for
  a grid with at least one row and one column is the union of its cells, and they have
  no point in common.
\<close>

theorem C6_dkshade_complement:
  assumes "region_keeping ff"
  shows "\<exists>gd. dkshade ff p (fresh_glyph p) rows cols = Inr gd
    \<and> (\<forall>q. (filled (contours gd) q
              \<or> filled (contours (ltshade ff p (fresh_glyph p) rows cols)) q)
            = in_rect p 0 0 1 1 q)
    \<and> (\<forall>q. \<not> (filled (contours gd) q
              \<and> filled (contours (ltshade ff p (fresh_glyph p) rows cols)) q))
    \<and> (\<forall>q. filled (contours (ltshade ff p (fresh_glyph p) rows cols)) q =
            (\<exists>x y. 0 \<le> x \<and> x < cols \<and> 0 \<le> y \<and> y < rows div 2
               \<and> (x + y) AND 1 = (rows + cols) AND 1 \<and> in_cell p rows cols x (y * 2) q))
    \<and> (0 < rows \<and> 0 < cols \<longrightarrow>
         (\<forall>q. in_rect p 0 0 1 1 q =
            (\<exists>x y. 0 \<le> x \<and> x < cols \<and> 0 \<le> y \<and> y < rows \<and> in_cell p rows cols x y q)))"
proof -
  from dkshade_filled [OF assms, of p rows cols] obtain gd where
    dk: "dkshade ff p (fresh_glyph p) rows cols = Inr gd"
    and a: "\<And>q. filled (contours gd) q =
      (in_rect p 0 0 1 1 q \<and> \<not> filled (contours (ltshade ff p (fresh_glyph p) rows cols)) q)"
    and b: "\<And>q. filled (contours (ltshade ff p (fresh_glyph p) rows cols)) q
      \<Longrightarrow> in_rect p 0 0 1 1 q"
    by blast
  have u: "(filled (contours gd) q \<or> filled (contours (ltshade ff p (fresh_glyph p) rows cols)) q)
      = in_rect p 0 0 1 1 q" for q
    using a [of q] b [of q] by blast
  have d: "\<not> (filled (contours gd) q
      \<and> filled (contours (ltshade ff p (fresh_glyph p) rows cols)) q)" for q
    using a [of q] by blast
  show ?thesis
    using dk u d ltshade_filled_iff [OF assms, of p rows cols] unit_square_grid [of rows cols p]
    by (intro exI [of _ gd] conjI allI impI) blast+
qed

theorem C6_dkshade_complement_witness:
  "region_keeping plain_engine
   \<and> filled (contours (ltshade plain_engine (SLCParameters_init no_kwargs)
        (fresh_glyph (SLCParameters_init no_kwargs)) 2 2)) (250, 550)
   \<and> (\<exists>gd. dkshade plain_engine (SLCParameters_init no_kwargs)
          (fresh_glyph (SLCParameters_init no_kwargs)) 2 2 = Inr gd
        \<and> \<not> filled (contours gd) (250, 550))"
proof -
  let ?p = "SLCParameters_init no_kwargs"
  let ?lt = "contours (ltshade plain_engine ?p (fresh_glyph ?p) 2 2)"
  from C6_dkshade_complement [OF region_keeping_plain, of ?p 2 2] obtain gd where
    dk: "dkshade plain_engine ?p (fresh_glyph ?p) 2 2 = Inr gd"
    and d: "\<forall>q. \<not> (filled (contours gd) q \<and> filled ?lt q)"
    and l: "\<forall>q. filled ?lt q =
        (\<exists>x y. 0 \<le> x \<and> x < 2 \<and> 0 \<le> y \<and> y < 2 div 2
           \<and> (x + y) AND 1 = ((2::int) + 2) AND 1 \<and> in_cell ?p 2 2 x (y * 2) q)"
    by blast
  have "0 \<le> (0::int) \<and> (0::int) < 2 \<and> 0 \<le> (0::int) \<and> (0::int) < 2 div 2
      \<and> ((0::int) + 0) AND 1 = ((2::int) + 2) AND 1 \<and> in_cell ?p 2 2 0 (0 * 2) (250, 550)"
    using witness_point by simp
  then have lt: "filled ?lt (250, 550)"
    using l by blast
  with d have "\<not> filled (contours gd) (250, 550)" by blast
  with dk lt region_keeping_plain show ?thesis by blast
qed

section \<open>The box-drawing strokes\<close>

text \<open>
  \<^verbatim>\<open>_boxdrawline\<close> written as one update of the store: the stroke goes to the
  target, the space is left blank. When the target is the space itself the stroke is
  lost with it.
\<close>

lemma glyph_reset [simp]:
  "(g :: glyph)\<lparr>contours := cs, gwidth := w\<rparr> = \<lparr>contours = cs, gwidth = w\<rparr>"
  by (cases g) simp

lemma glyph_of_createChar [simp]: "glyph_of (createChar f c) cp = glyph_of f cp"
  by (simp add: glyph_of_def createChar_def split: option.split)

lemma glyph_of_put [simp]: "glyph_of (put_glyph f c g) cp = (if cp = c then g else glyph_of f cp)"
  by (simp add: glyph_of_def put_glyph_def split: option.split)

lemma glyphs_put [simp]: "glyphs (put_glyph f c g) = (glyphs f)(c \<mapsto> g)"
  by (simp add: put_glyph_def)

lemma glyphs_createChar_other: "c \<noteq> cp \<Longrightarrow> glyphs (createChar f cp) c = glyphs f c"
  by (simp add: createChar_def split: option.split)

lemma boxdrawline_eq:
  "boxdrawline ff p f cp line weight truncate' =
     (case stroked_line ff p line weight truncate' of
        Inl e \<Rightarrow> Inl e
      | Inr cs \<Rightarrow>
          Inr (put_glyph
                 (put_glyph (put_glyph (createChar f 32) 32 ((glyph_of f 32)\<lparr>contours := cs\<rparr>))
                    cp ((if cp = 32 then (glyph_of f 32)\<lparr>contours := cs\<rparr> else glyph_of f cp)
                         \<lparr>contours := contours (if cp = 32 then (glyph_of f 32)\<lparr>contours := cs\<rparr>
                                                 else glyph_of f cp) @ cs\<rparr>))
                 32 \<lparr>contours = [], gwidth = width p\<rparr>))"
  by (auto simp: boxdrawline_def stroked_line_def Let_def split: sum.split list.split)

lemma boxdrawline_space:
  assumes "boxdrawline ff p f cp line weight truncate' = Inr f'"
  shows "glyphs f' 32 = Some \<lparr>contours = [], gwidth = width p\<rparr>"
    and "c \<noteq> cp \<Longrightarrow> c \<noteq> 32 \<Longrightarrow> glyphs f' c = glyphs f c"
  using assms unfolding boxdrawline_eq
  by (auto simp: glyphs_createChar_other split: sum.splits)

lemma boxdrawline_target:
  assumes "boxdrawline ff p f cp line weight truncate' = Inr f'" and "cp \<noteq> 32"
  shows "\<exists>cs. stroked_line ff p line weight truncate' = Inr cs
    \<and> glyphs f' cp = Some ((glyph_of f cp)\<lparr>contours := contours (glyph_of f cp) @ cs\<rparr>)"
  using assms unfolding boxdrawline_eq
  by (auto split: sum.splits)

lemma extendpoints_ok:
  "2 \<le> length line \<Longrightarrow> \<exists>l. extendpoints line = Inr l \<and> length l = length line"
  by (auto simp: extendpoints_def split: prod.split)

lemma boxdrawline_returns:
  assumes "if truncate' then 2 \<le> length line else line \<noteq> []"
  shows "\<exists>f'. boxdrawline ff p f cp line weight truncate' = Inr f'"
proof (cases truncate')
  case True
  with assms obtain l where "extendpoints line = Inr l" using extendpoints_ok by auto
  then show ?thesis unfolding boxdrawline_eq by (simp add: stroked_line_def True)
next
  case False
  with assms obtain a as where "line = a # as" by (cases line) auto
  then show ?thesis unfolding boxdrawline_eq by (simp add: stroked_line_def False)
qed

lemma boxdrawlines_space:
  assumes "boxdrawlines ff p f cp lines weight truncate' = Inr f'"
  shows "(lines \<noteq> [] \<or> glyphs f 32 = Some \<lparr>contours = [], gwidth = width p\<rparr>
            \<longrightarrow> glyphs f' 32 = Some \<lparr>contours = [], gwidth = width p\<rparr>)
    \<and> (\<forall>c. c \<noteq> cp \<and> c \<noteq> 32 \<longrightarrow> glyphs f' c = glyphs f c)"
  using assms
proof (induction lines arbitrary: f)
  case Nil
  then show ?case by simp
next
  case (Cons line lines)
  from Cons.prems obtain f1 where
    l: "boxdrawline ff p f cp line weight truncate' = Inr f1"
    and r: "boxdrawlines ff p f1 cp lines weight truncate' = Inr f'"
    by (auto split: sum.splits)
  from boxdrawline_space [OF l] Cons.IH [OF r] show ?case by simp
qed

lemma merge_outline_frame:
  assumes "merge_outline ff p f cp = Inr f'" and "c \<noteq> cp"
  shows "glyphs f' c = glyphs f c"
  using assms by (auto simp: merge_outline_def Let_def split: sum.splits)

lemma mkglyph_glyph: "glyphs (mkglyph p f cp) cp = Some \<lparr>contours = [], gwidth = width p\<rparr>"
  by (simp add: mkglyph_def Let_def)

lemma mkglyph_frame: "c \<noteq> cp \<Longrightarrow> glyphs (mkglyph p f cp) c = glyphs f c"
  by (simp add: mkglyph_def Let_def glyphs_createChar_other)

lemma stroke_then_merge:
  assumes l: "boxdrawlines ff p f cp lines weight truncate' = Inr f1"
    and m: "merge_outline ff p f1 cp = Inr f'" and cp: "cp \<noteq> 32"
  shows "(lines \<noteq> [] \<or> glyphs f 32 = Some \<lparr>contours = [], gwidth = width p\<rparr>
            \<longrightarrow> glyphs f' 32 = Some \<lparr>contours = [], gwidth = width p\<rparr>)
    \<and> (\<forall>c. c \<noteq> cp \<and> c \<noteq> 32 \<longrightarrow> glyphs f' c = glyphs f c)"
  using boxdrawlines_space [OF l] merge_outline_frame [OF m] cp by auto

lemma boxdraw_space:
  assumes l: "boxdrawlines ff p f cp lines weight truncate' = Inr f1"
    and m: "merge_outline ff p f1 cp = Inr f'" and cp: "cp \<noteq> 32"
  shows "(lines \<noteq> [] \<or> space_blank p f \<longrightarrow> space_blank p f') \<and> keeps_others f cp f'"
  using stroke_then_merge [OF l m cp] by (simp add: space_blank_def keeps_others_def)

text \<open>
  What the target gains: each stroked line appends its stroke, and the builder then
  merges the outline of the target.
\<close>

lemma boxdrawline_stages:
  "boxdrawline ff p f cp line weight t =
     (case scratch_stroke ff p f line weight t of
        Inl e \<Rightarrow> Inl e
      | Inr f0 \<Rightarrow>
          Inr (put_glyph
                 (put_glyph f0 cp ((glyph_of f0 cp)
                    \<lparr>contours := contours (glyph_of f0 cp) @ contours (glyph_of f0 32)\<rparr>))
                 32 \<lparr>contours = [], gwidth = width p\<rparr>))"
  by (auto simp: boxdrawline_eq scratch_stroke_def split: sum.split)

lemma scratch_stroke_holds:
  assumes "scratch_stroke ff p f line weight t = Inr f0"
  shows "stroked_line ff p line weight t = Inr (contours (glyph_of f0 32))
    \<and> (\<forall>c. c \<noteq> 32 \<longrightarrow> glyphs f0 c = glyphs f c)"
  using assms
  by (auto simp: scratch_stroke_def glyphs_createChar_other split: sum.splits)

lemma font_metrics_put [simp]:
  "font_ascent (put_glyph f c g) = font_ascent f" "font_descent (put_glyph f c g) = font_descent f"
  by (simp_all add: put_glyph_def)

lemma font_metrics_createChar [simp]:
  "font_ascent (createChar f c) = font_ascent f" "font_descent (createChar f c) = font_descent f"
  by (simp_all add: createChar_def split: option.split)

lemma boxdrawline_glyph_of:
  assumes "boxdrawline ff p f cp line weight t = Inr f1" and "cp \<noteq> 32"
  shows "\<exists>cs. stroked_line ff p line weight t = Inr cs
    \<and> glyph_of f1 cp = (glyph_of f cp)\<lparr>contours := contours (glyph_of f cp) @ cs\<rparr>"
  using assms unfolding boxdrawline_eq
  by (auto split: sum.splits)

lemma boxdrawlines_target:
  assumes "boxdrawlines ff p f cp lines weight t = Inr f1" and "cp \<noteq> 32"
  shows "\<exists>css. list_all2 (\<lambda>line cs. stroked_line ff p line weight t = Inr cs) lines css
    \<and> glyph_of f1 cp = (glyph_of f cp)\<lparr>contours := contours (glyph_of f cp) @ concat css\<rparr>"
  using assms(1)
proof (induction lines arbitrary: f)
  case Nil
  then show ?case by simp
next
  case (Cons line lines)
  from Cons.prems obtain f0 where
    l: "boxdrawline ff p f cp line weight t = Inr f0"
    and r: "boxdrawlines ff p f0 cp lines weight t = Inr f1"
    by (auto split: sum.splits)
  from boxdrawline_glyph_of [OF l assms(2)] obtain cs where
    cs: "stroked_line ff p line weight t = Inr cs"
    and g0: "glyph_of f0 cp = (glyph_of f cp)\<lparr>contours := contours (glyph_of f cp) @ cs\<rparr>"
    by blast
  from Cons.IH [OF r] obtain css where
    css: "list_all2 (\<lambda>line cs. stroked_line ff p line weight t = Inr cs) lines css"
    and g1: "glyph_of f1 cp = (glyph_of f0 cp)\<lparr>contours := contours (glyph_of f0 cp) @ concat css\<rparr>"
    by blast
  have "list_all2 (\<lambda>line cs. stroked_line ff p line weight t = Inr cs) (line # lines) (cs # css)"
    using cs css by simp
  moreover have "glyph_of f1 cp =
      (glyph_of f cp)\<lparr>contours := contours (glyph_of f cp) @ concat (cs # css)\<rparr>"
    using g1 g0 by simp
  ultimately show ?case by blast
qed

lemma merge_outline_target:
  assumes "merge_outline ff p f cp = Inr f'"
  shows "\<exists>g. stripcontrolpoints ff p
        ((glyph_of f cp)\<lparr>contours := simplify ff (removeOverlap ff (contours (glyph_of f cp)))\<rparr>)
        = Inr g \<and> glyphs f' cp = Some g"
  using assms by (auto simp: merge_outline_def Let_def split: sum.splits)

lemma boxdraw_target:
  assumes l: "boxdrawlines ff p f cp lines weight t = Inr f1"
    and m: "merge_outline ff p f1 cp = Inr f'" and cp: "cp \<noteq> 32"
  shows "\<exists>css g. list_all2 (\<lambda>line cs. stroked_line ff p line weight t = Inr cs) lines css
    \<and> stripcontrolpoints ff p
        ((glyph_of f cp)\<lparr>contours := simplify ff (removeOverlap ff
            (contours (glyph_of f cp) @ concat css))\<rparr>) = Inr g
    \<and> glyphs f' cp = Some g"
proof -
  from boxdrawlines_target [OF l cp] obtain css where
    css: "list_all2 (\<lambda>line cs. stroked_line ff p line weight t = Inr cs) lines css"
    and g1: "glyph_of f1 cp = (glyph_of f cp)\<lparr>contours := contours (glyph_of f cp) @ concat css\<rparr>"
    by blast
  from merge_outline_target [OF m] obtain g where
    "stripcontrolpoints ff p
        ((glyph_of f1 cp)\<lparr>contours := simplify ff (removeOverlap ff (contours (glyph_of f1 cp)))\<rparr>)
        = Inr g" and "glyphs f' cp = Some g"
    by blast
  then have "stripcontrolpoints ff p
        ((glyph_of f cp)\<lparr>contours := simplify ff (removeOverlap ff
            (contours (glyph_of f cp) @ concat css))\<rparr>) = Inr g \<and> glyphs f' cp = Some g"
    by (simp add: g1)
  with css show ?thesis by blast
qed

text \<open>
  C9. \<^verbatim>\<open>_boxdrawline\<close> strokes in the glyph of code point 32: when the line is
  stroked and simplified that glyph holds the stroke and no other glyph has changed; the
  stroke is then drawn into the target and the glyph of code point 32 is left with no
  contours and the advance width of the parameters. So, for a target other than the
  space, a stroked line appends its stroke to the target, leaves the space blank and
  changes no other glyph, and a line with at least two points (one point when not
  truncating) is stroked without an error. Each of \<^verbatim>\<open>boxdrawlight\<close>,
  \<^verbatim>\<open>boxdrawheavy\<close>, \<^verbatim>\<open>boxdrawmixed\<close> and \<^verbatim>\<open>boxdrawdiag\<close> leaves in the target
  the merged outline of its contours and the strokes of all lines, leaves the space
  blank when it strokes a line or found it blank, and changes no glyph but its target
  and the space. \<^verbatim>\<open>mkglyph\<close> makes the space blank and making another glyph does
  not touch it, so the space of the finished font is blank.
\<close>

theorem C9_space_scratch_glyph:
  assumes "cp \<noteq> 32"
  shows "boxdrawline ff p f cp line weight t =
       (case scratch_stroke ff p f line weight t of
          Inl e \<Rightarrow> Inl e
        | Inr f0 \<Rightarrow>
            Inr (put_glyph
                   (put_glyph f0 cp ((glyph_of f0 cp)
                      \<lparr>contours := contours (glyph_of f0 cp) @ contours (glyph_of f0 32)\<rparr>))
                   32 \<lparr>contours = [], gwidth = width p\<rparr>))
    \<and> (scratch_stroke ff p f line weight t = Inr f0 \<longrightarrow>
          stroked_line ff p line weight t = Inr (contours (glyph_of f0 32))
          \<and> (\<forall>c. c \<noteq> 32 \<longrightarrow> glyphs f0 c = glyphs f c))
    \<and> (boxdrawline ff p f cp line weight t = Inr f1 \<longrightarrow>
          space_blank p f1 \<and> keeps_others f cp f1
          \<and> (\<exists>cs. stroked_line ff p line weight t = Inr cs
                \<and> glyphs f1 cp =
                    Some ((glyph_of f cp)\<lparr>contours := contours (glyph_of f cp) @ cs\<rparr>)))
    \<and> ((if t then 2 \<le> length line else line \<noteq> []) \<longrightarrow>
          (\<exists>f'. boxdrawline ff p f cp line weight t = Inr f'))
    \<and> (boxdrawlight ff p f cp lines = Inr f2 \<longrightarrow>
          (lines \<noteq> [] \<or> space_blank p f \<longrightarrow> space_blank p f2) \<and> keeps_others f cp f2
          \<and> (\<exists>css g.
                list_all2 (\<lambda>line cs. stroked_line ff p line (boxLightWeight p) False = Inr cs)
                  lines css
                \<and> stripcontrolpoints ff p
                    ((glyph_of f cp)\<lparr>contours := simplify ff (removeOverlap ff
                        (contours (glyph_of f cp) @ concat css))\<rparr>) = Inr g
                \<and> glyphs f2 cp = Some g))
    \<and> (boxdrawheavy ff p f cp lines = Inr f3 \<longrightarrow>
          (lines \<noteq> [] \<or> space_blank p f \<longrightarrow> space_blank p f3) \<and> keeps_others f cp f3
          \<and> (\<exists>css g.
                list_all2 (\<lambda>line cs. stroked_line ff p line (boxHeavyWeight p) False = Inr cs)
                  lines css
                \<and> stripcontrolpoints ff p
                    ((glyph_of f cp)\<lparr>contours := simplify ff (removeOverlap ff
                        (contours (glyph_of f cp) @ concat css))\<rparr>) = Inr g
                \<and> glyphs f3 cp = Some g))
    \<and> (boxdrawmixed ff p f cp lines heavyLines = Inr f4 \<longrightarrow>
          (lines \<noteq> [] \<or> heavyLines \<noteq> [] \<or> space_blank p f \<longrightarrow> space_blank p f4)
          \<and> keeps_others f cp f4
          \<and> (\<exists>css css' g.
                list_all2 (\<lambda>line cs. stroked_line ff p line (boxLightWeight p) False = Inr cs)
                  lines css
                \<and> list_all2 (\<lambda>line cs. stroked_line ff p line (boxHeavyWeight p) False = Inr cs)
                  heavyLines css'
                \<and> stripcontrolpoints ff p
                    ((glyph_of f cp)\<lparr>contours := simplify ff (removeOverlap ff
                        (contours (glyph_of f cp) @ concat css @ concat css'))\<rparr>) = Inr g
                \<and> glyphs f4 cp = Some g))
    \<and> (boxdrawdiag ff p f cp lines = Inr f5 \<longrightarrow>
          (lines \<noteq> [] \<or> space_blank p f \<longrightarrow> space_blank p f5) \<and> keeps_others f cp f5
          \<and> (\<exists>css g.
                list_all2 (\<lambda>line cs.
                    stroked_line ff p line (boxLightWeight p) (boxLineTruncate p) = Inr cs)
                  lines css
                \<and> stripcontrolpoints ff p
                    ((glyph_of f cp)\<lparr>contours := simplify ff (removeOverlap ff
                        (contours (glyph_of f cp) @ concat css))\<rparr>) = Inr g
                \<and> glyphs f5 cp = Some g))
    \<and> space_blank p (mkglyph p f 32)
    \<and> glyphs (mkglyph p f cp) 32 = glyphs f 32"
proof -
  have line: "boxdrawline ff p f cp line weight t = Inr f1 \<longrightarrow>
          space_blank p f1 \<and> keeps_others f cp f1
          \<and> (\<exists>cs. stroked_line ff p line weight t = Inr cs
                \<and> glyphs f1 cp =
                    Some ((glyph_of f cp)\<lparr>contours := contours (glyph_of f cp) @ cs\<rparr>))"
  proof
    assume a: "boxdrawline ff p f cp line weight t = Inr f1"
    from boxdrawline_space [OF a] have "space_blank p f1" and "keeps_others f cp f1"
      by (simp_all add: space_blank_def keeps_others_def)
    with boxdrawline_target [OF a assms] show "space_blank p f1 \<and> keeps_others f cp f1
          \<and> (\<exists>cs. stroked_line ff p line weight t = Inr cs
                \<and> glyphs f1 cp =
                    Some ((glyph_of f cp)\<lparr>contours := contours (glyph_of f cp) @ cs\<rparr>))"
      by blast
  qed
  have one: "(lines \<noteq> [] \<or> space_blank p f \<longrightarrow> space_blank p f') \<and> keeps_others f cp f'
          \<and> (\<exists>css g.
                list_all2 (\<lambda>line cs. stroked_line ff p line w b = Inr cs) lines css
                \<and> stripcontrolpoints ff p
                    ((glyph_of f cp)\<lparr>contours := simplify ff (removeOverlap ff
                        (contours (glyph_of f cp) @ concat css))\<rparr>) = Inr g
                \<and> glyphs f' cp = Some g)"
    if "boxdrawlines ff p f cp lines w b = Inr g0" and "merge_outline ff p g0 cp = Inr f'"
    for w b g0 f'
    using boxdraw_space [OF that assms] boxdraw_target [OF that assms] by blast
  have light: "boxdrawlight ff p f cp lines = Inr f2 \<longrightarrow>
          (lines \<noteq> [] \<or> space_blank p f \<longrightarrow> space_blank p f2) \<and> keeps_others f cp f2
          \<and> (\<exists>css g.
                list_all2 (\<lambda>line cs. stroked_line ff p line (boxLightWeight p) False = Inr cs)
                  lines css
                \<and> stripcontrolpoints ff p
                    ((glyph_of f cp)\<lparr>contours := simplify ff (removeOverlap ff
                        (contours (glyph_of f cp) @ concat css))\<rparr>) = Inr g
                \<and> glyphs f2 cp = Some g)"
    using one [of "boxLightWeight p" False _ f2]
    by (auto simp: boxdrawlight_def split: sum.splits)
  have heavy: "boxdrawheavy ff p f cp lines = Inr f3 \<longrightarrow>
          (lines \<noteq> [] \<or> space_blank p f \<longrightarrow> space_blank p f3) \<and> keeps_others f cp f3
          \<and> (\<exists>css g.
                list_all2 (\<lambda>line cs. stroked_line ff p line (boxHeavyWeight p) False = Inr cs)
                  lines css
                \<and> stripcontrolpoints ff p
                    ((glyph_of f cp)\<lparr>contours := simplify ff (removeOverlap ff
                        (contours (glyph_of f cp) @ concat css))\<rparr>) = Inr g
                \<and> glyphs f3 cp = Some g)"
    using one [of "boxHeavyWeight p" False _ f3]
    by (auto simp: boxdrawheavy_def split: sum.splits)
  have diag: "boxdrawdiag ff p f cp lines = Inr f5 \<longrightarrow>
          (lines \<noteq> [] \<or> space_blank p f \<longrightarrow> space_blank p f5) \<and> keeps_others f cp f5
          \<and> (\<exists>css g.
                list_all2 (\<lambda>line cs.
                    stroked_line ff p line (boxLightWeight p) (boxLineTruncate p) = Inr cs)
                  lines css
                \<and> stripcontrolpoints ff p
                    ((glyph_of f cp)\<lparr>contours := simplify ff (removeOverlap ff
                        (contours (glyph_of f cp) @ concat css))\<rparr>) = Inr g
                \<and> glyphs f5 cp = Some g)"
    using one [of "boxLightWeight p" "boxLineTruncate p" _ f5]
    by (auto simp: boxdrawdiag_def split: sum.splits)
  have mixed: "boxdrawmixed ff p f cp lines heavyLines = Inr f4 \<longrightarrow>
          (lines \<noteq> [] \<or> heavyLines \<noteq> [] \<or> space_blank p f \<longrightarrow> space_blank p f4)
          \<and> keeps_others f cp f4
          \<and> (\<exists>css css' g.
                list_all2 (\<lambda>line cs. stroked_line ff p line (boxLightWeight p) False = Inr cs)
                  lines css
                \<and> list_all2 (\<lambda>line cs. stroked_line ff p line (boxHeavyWeight p) False = Inr cs)
                  heavyLines css'
                \<and> stripcontrolpoints ff p
                    ((glyph_of f cp)\<lparr>contours := simplify ff (removeOverlap ff
                        (contours (glyph_of f cp) @ concat css @ concat css'))\<rparr>) = Inr g
                \<and> glyphs f4 cp = Some g)"
  proof
    assume a: "boxdrawmixed ff p f cp lines heavyLines = Inr f4"
    then obtain g h where l: "boxdrawlines ff p f cp lines (boxLightWeight p) False = Inr g"
      and h: "boxdrawlines ff p g cp heavyLines (boxHeavyWeight p) False = Inr h"
      and m: "merge_outline ff p h cp = Inr f4"
      by (auto simp: boxdrawmixed_def split: sum.splits)
    from boxdrawlines_space [OF l]
    have 1: "lines \<noteq> [] \<or> space_blank p f \<longrightarrow> space_blank p g" and 2: "keeps_others f cp g"
      by (simp_all add: space_blank_def keeps_others_def)
    from boxdraw_space [OF h m assms]
    have 3: "heavyLines \<noteq> [] \<or> space_blank p g \<longrightarrow> space_blank p f4"
      and 4: "keeps_others g cp f4"
      by simp_all
    from 1 3 have s: "lines \<noteq> [] \<or> heavyLines \<noteq> [] \<or> space_blank p f \<longrightarrow> space_blank p f4"
      by blast
    from 2 4 have k: "keeps_others f cp f4"
      by (simp add: keeps_others_def)
    from boxdrawlines_target [OF l assms] obtain css where
      css: "list_all2 (\<lambda>line cs. stroked_line ff p line (boxLightWeight p) False = Inr cs) lines css"
      and gg: "glyph_of g cp = (glyph_of f cp)\<lparr>contours := contours (glyph_of f cp) @ concat css\<rparr>"
      by blast
    from boxdraw_target [OF h m assms] obtain css' g' where
      css': "list_all2 (\<lambda>line cs. stroked_line ff p line (boxHeavyWeight p) False = Inr cs)
          heavyLines css'"
      and st: "stripcontrolpoints ff p
          ((glyph_of g cp)\<lparr>contours := simplify ff (removeOverlap ff
              (contours (glyph_of g cp) @ concat css'))\<rparr>) = Inr g'"
      and tg: "glyphs f4 cp = Some g'"
      by blast
    from st have "stripcontrolpoints ff p
          ((glyph_of f cp)\<lparr>contours := simplify ff (removeOverlap ff
              (contours (glyph_of f cp) @ concat css @ concat css'))\<rparr>) = Inr g'"
      by (simp add: gg)
    with s k css css' tg show "(lines \<noteq> [] \<or> heavyLines \<noteq> [] \<or> space_blank p f \<longrightarrow> space_blank p f4)
          \<and> keeps_others f cp f4
          \<and> (\<exists>css css' g.
                list_all2 (\<lambda>line cs. stroked_line ff p line (boxLightWeight p) False = Inr cs)
                  lines css
                \<and> list_all2 (\<lambda>line cs. stroked_line ff p line (boxHeavyWeight p) False = Inr cs)
                  heavyLines css'
                \<and> stripcontrolpoints ff p
                    ((glyph_of f cp)\<lparr>contours := simplify ff (removeOverlap ff
                        (contours (glyph_of f cp) @ concat css @ concat css'))\<rparr>) = Inr g
                \<and> glyphs f4 cp = Some g)"
      by blast
  qed
  have ret: "(if t then 2 \<le> length line else line \<noteq> []) \<longrightarrow>
      (\<exists>f'. boxdrawline ff p f cp line weight t = Inr f')"
    using boxdrawline_returns by blast
  have sc: "scratch_stroke ff p f line weight t = Inr f0 \<longrightarrow>
          stroked_line ff p line weight t = Inr (contours (glyph_of f0 32))
          \<and> (\<forall>c. c \<noteq> 32 \<longrightarrow> glyphs f0 c = glyphs f c)"
    using scratch_stroke_holds by blast
  have mk: "space_blank p (mkglyph p f 32)" "glyphs (mkglyph p f cp) 32 = glyphs f 32"
    using assms by (simp_all add: space_blank_def mkglyph_glyph mkglyph_frame)
  show ?thesis
    apply (intro conjI)
            apply (rule boxdrawline_stages)
           apply (rule sc)
          apply (rule line)
         apply (rule ret)
        apply (rule light)
       apply (rule heavy)
      apply (rule mixed)
     apply (rule diag)
    apply (rule mk)+
    done
qed

theorem C9_space_scratch_glyph_witness:
  "(9472 :: int) \<noteq> 32
   \<and> (\<exists>f' cs. boxdrawline plain_engine (SLCParameters_init no_kwargs)
          (mkglyph (SLCParameters_init no_kwargs) new_font 9472) 9472
          [(0, 1 / 2), (1, 1 / 2)] 100 True = Inr f'
        \<and> space_blank (SLCParameters_init no_kwargs) f'
        \<and> keeps_others (mkglyph (SLCParameters_init no_kwargs) new_font 9472) 9472 f'
        \<and> stroked_line plain_engine (SLCParameters_init no_kwargs)
             [(0, 1 / 2), (1, 1 / 2)] 100 True = Inr cs
        \<and> glyphs f' 9472 =
            Some ((glyph_of (mkglyph (SLCParameters_init no_kwargs) new_font 9472) 9472)
              \<lparr>contours :=
                 contours (glyph_of (mkglyph (SLCParameters_init no_kwargs) new_font 9472) 9472)
                 @ cs\<rparr>))"
proof -
  let ?p = "SLCParameters_init no_kwargs"
  let ?f = "mkglyph ?p new_font 9472"
  let ?line = "[(0 :: real, 1 / 2 :: real), (1, 1 / 2)]"
  have ne: "(9472 :: int) \<noteq> 32" by simp
  have len: "if True then 2 \<le> length ?line else ?line \<noteq> []"
    by simp
  note c9 = C9_space_scratch_glyph [OF ne, where ff = plain_engine and p = ?p and f = ?f
      and line = ?line and weight = 100 and t = True]
  from c9 [THEN conjunct2, THEN conjunct2, THEN conjunct2, THEN conjunct1, THEN mp, OF len]
  obtain f' where r: "boxdrawline plain_engine ?p ?f 9472 ?line 100 True = Inr f'"
    by (rule exE)
  note c9 [where ?f1.0 = f', THEN conjunct2, THEN conjunct2, THEN conjunct1, THEN mp, OF r]
  then obtain cs where "space_blank ?p f'" and "keeps_others ?f 9472 f'"
    and "stroked_line plain_engine ?p ?line 100 True = Inr cs"
    and "glyphs f' 9472 =
        Some ((glyph_of ?f 9472)\<lparr>contours := contours (glyph_of ?f 9472) @ cs\<rparr>)"
    by (elim conjE exE)
  with r ne show ?thesis by (intro conjI exI [of _ f'] exI [of _ cs])
qed

section \<open>The two stroke policies\<close>


lemma line_path_flag [simp]: "line_path (p\<lparr>boxLineTruncate := b\<rparr>) l = line_path p l"
  by (simp add: line_path_def)

lemma em_box_flag [simp]: "em_box (p\<lparr>boxLineTruncate := b\<rparr>) = em_box p"
  by (simp add: em_box_def)

lemma stroked_line_flag [simp]:
  "stroked_line ff (p\<lparr>boxLineTruncate := b\<rparr>) line w t = stroked_line ff p line w t"
  by (simp add: stroked_line_def split: sum.split list.split)

lemma boxdrawline_flag [simp]:
  "boxdrawline ff (p\<lparr>boxLineTruncate := b\<rparr>) f cp line w t = boxdrawline ff p f cp line w t"
  by (simp add: boxdrawline_eq split: sum.split)

lemma boxdrawlines_flag [simp]:
  "boxdrawlines ff (p\<lparr>boxLineTruncate := b\<rparr>) f cp lines w t = boxdrawlines ff p f cp lines w t"
  by (induction lines arbitrary: f) (simp_all split: sum.split)

lemma merge_outline_flag [simp]:
  "merge_outline ff (p\<lparr>boxLineTruncate := b\<rparr>) f cp = merge_outline ff p f cp"
  by (simp add: merge_outline_def stripcontrolpoints_def Let_def)



section \<open>Ellipses\<close>


end
